theory Spec2Isabelle
  imports Complex_Main
begin

section \<open>Data model\<close>

text \<open>
  The engine keeps one process-wide object, \<^verbatim>\<open>sessionStats\<close> in
  \<^verbatim>\<open>storage.service.js\<close> (called \<^verbatim>\<open>safetyConfig\<close> inside
  \<^verbatim>\<open>whatsapp.service.js\<close>). It is a record here and is passed explicitly.
  Counters and limits are integers (the defaults of the source and what
  \<^verbatim>\<open>parseInt\<close> stores on a configuration update). Timestamps are integers,
  milliseconds on the local clock; the ISO string kept in
  \<^verbatim>\<open>circuitBreakerResetTime\<close> is that integer, \<^verbatim>\<open>null\<close> is \<open>None\<close>.
  \<^verbatim>\<open>toDateString()\<close> is the day number and \<^verbatim>\<open>getHours()\<close> the hour
  of that day (a local zone with a fixed offset).
\<close>

text \<open>An element of the submitted \<^verbatim>\<open>numbers\<close> array: a string, or a JSON number
  (the route's \<^verbatim>\<open>matches(/^\d+$/)\<close> check accepts both and leaves the value as it was).\<close>

datatype item = Str string | Num int

record failure_record =
  f_count :: int
  firstFailure :: int
  lastFailure :: int
  f_reason :: string

datatype user_status = Ready | Adding

record safety_config =
  addedToday :: int
  lastDateReset :: int
  hourlyAdditionCounts :: "int list"
  circuitBreakerTripped :: bool
  circuitBreakerResetTime :: "int option"
  isAddingMembers :: bool
  userStatus :: user_status
  consecutiveFailures :: int
  failedNumbers :: "(string \<times> failure_record) list"
  currentBatch :: "item list"
  currentBatchIndex :: nat
  lastGroupId :: "string option"
  minDelay :: int
  maxDelay :: int
  dailyLimit :: int
  maxBatchSize :: int
  batchCooldown :: int
  failureThreshold :: int
  circuitBreakerTimeout :: int
  hourlyLimit :: int
  patternVariation :: bool

text \<open>The three files written by \<^verbatim>\<open>saveSessionStats\<close>.\<close>

record stats_record =
  s_addedToday :: int
  s_lastDateReset :: int
  s_hourlyAdditionCounts :: "int list"
  s_circuitBreakerTripped :: bool
  s_circuitBreakerResetTime :: "int option"

record batch_record =
  b_currentBatch :: "item list"
  b_currentBatchIndex :: nat
  b_lastGroupId :: "string option"

text \<open>
  Everything outside the object: the clock, the random source, the answers of the
  messaging client, the files, and a trace of the timers that were awaited.
  Time moves only where the source awaits: a timer advances the clock by its delay,
  a call of the client by the time the environment takes for it.
  \<^verbatim>\<open>Math.random()\<close> returns the next element of \<open>rnd\<close>. The trace has an entry
  for each timer that is awaited: the batch cooldown, the smart delay and the pause after
  a failure (the two other timers of the source, the wait for the next hour and the
  extended break, stand behind a call that throws and are never started, see below).
\<close>

datatype verify_outcome = Verified bool | VerifyFailed

datatype add_outcome = AddOk | AddThrew string

datatype sleep_kind = BatchCooldown | SmartDelay | FailureBackoff

record world =
  now :: int
  rnd :: "nat \<Rightarrow> real"
  rnd_ix :: nat
  verify_result :: verify_outcome
  verify_ms :: int
  add_result :: "nat \<Rightarrow> add_outcome"
  add_ms :: "nat \<Rightarrow> int"
  stats_file :: "stats_record option"
  failed_file :: "(string \<times> failure_record) list option"
  batches_file :: "batch_record option"
  batch_writes :: "batch_record list"
  sleeps :: "(sleep_kind \<times> real option) list"
  outbox :: "(string \<times> string) list"

section \<open>Clock, timers and the random source\<close>

definition getHours :: "int \<Rightarrow> nat" where
  "getHours t = nat ((t div 3600000) mod 24)"

definition toDateString :: "int \<Rightarrow> int" where
  "toDateString t = t div 86400000"

text \<open>Node's \<^verbatim>\<open>setTimeout\<close>: a delay that is not between 1 and \<open>2\<^sup>3\<^sup>1 - 1\<close>
  (also a non-finite one, \<open>None\<close>) is replaced by 1; a fraction is dropped.\<close>

definition timer_ms :: "real option \<Rightarrow> int" where
  "timer_ms d = (case d of
       None \<Rightarrow> 1
     | Some x \<Rightarrow> (if 1 \<le> x \<and> x \<le> 2147483647 then \<lfloor>x\<rfloor> else 1))"

definition sleep :: "sleep_kind \<Rightarrow> real option \<Rightarrow> world \<Rightarrow> world" where
  "sleep k d w = w\<lparr>now := now w + timer_ms d, sleeps := sleeps w @ [(k, d)]\<rparr>"

definition next_random :: "world \<Rightarrow> real \<times> world" where
  "next_random w = (rnd w (rnd_ix w), w\<lparr>rnd_ix := Suc (rnd_ix w)\<rparr>)"

section \<open>Logger\<close>

text \<open>
  \<^verbatim>\<open>utils/logger.js\<close> exports an object with the methods \<^verbatim>\<open>info\<close>,
  \<^verbatim>\<open>success\<close>, \<^verbatim>\<open>warn\<close>, \<^verbatim>\<open>error\<close>, \<^verbatim>\<open>debug\<close> and
  \<^verbatim>\<open>raw\<close>. They print a line and append it to the log file of the day (inside
  \<^verbatim>\<open>try\<close>), and do nothing else: calls of them are left out of the model. There is
  no method \<^verbatim>\<open>warning\<close>. \<^verbatim>\<open>whatsapp.service.js\<close> calls
  \<^verbatim>\<open>logger.warning(...)\<close> in ten places (lines 394, 430, 438, 469, 564, 661, 729,
  733, 743 and 1007); each such call applies \<^verbatim>\<open>undefined\<close> and throws a
  \<^verbatim>\<open>TypeError\<close> whose message is the text below. The statements that follow the
  call in its block are not reached.
\<close>

definition logger_warning :: string where
  "logger_warning = ''logger.warning is not a function''"

section \<open>Storage service\<close>

text \<open>\<^verbatim>\<open>saveSessionStats\<close>: the stats and the failed numbers are always written, the
  batch file only while the batch in memory is not empty. \<open>batch_writes\<close> keeps every
  batch record that was written, in order.\<close>

definition saveSessionStats :: "safety_config \<Rightarrow> world \<Rightarrow> world" where
  "saveSessionStats st w =
     (let w1 = w\<lparr>stats_file := Some \<lparr>s_addedToday = addedToday st,
                     s_lastDateReset = lastDateReset st,
                     s_hourlyAdditionCounts = hourlyAdditionCounts st,
                     s_circuitBreakerTripped = circuitBreakerTripped st,
                     s_circuitBreakerResetTime = circuitBreakerResetTime st\<rparr>,
                  failed_file := Some (failedNumbers st)\<rparr>
      in if currentBatch st \<noteq> []
         then (let batchData = \<lparr>b_currentBatch = currentBatch st,
                                 b_currentBatchIndex = currentBatchIndex st,
                                 b_lastGroupId = lastGroupId st\<rparr>
               in w1\<lparr>batches_file := Some batchData,
                      batch_writes := batch_writes w1 @ [batchData]\<rparr>)
         else w1)"

text \<open>\<^verbatim>\<open>loadBatchData\<close>: a stored batch that is not empty replaces the batch in
  memory, the cursor and the group identifier.\<close>

definition loadBatchData :: "safety_config \<Rightarrow> world \<Rightarrow> safety_config" where
  "loadBatchData st w = (case batches_file w of
       None \<Rightarrow> st
     | Some batchData \<Rightarrow>
         if b_currentBatch batchData \<noteq> []
         then st\<lparr>currentBatch := b_currentBatch batchData,
                 currentBatchIndex := b_currentBatchIndex batchData,
                 lastGroupId := b_lastGroupId batchData\<rparr>
         else st)"

text \<open>\<^verbatim>\<open>clearBatchData\<close> of \<^verbatim>\<open>whatsapp.service.js\<close>: it only unlinks the file.\<close>

definition clearBatchData :: "world \<Rightarrow> world" where
  "clearBatchData w = w\<lparr>batches_file := None\<rparr>"

section \<open>Quota tracker\<close>

text \<open>The array has 24 entries: it is created with 24 and only written at an hour,
  which is below 24. A read past the end of a shorter array is \<^verbatim>\<open>undefined\<close>, and
  \<^verbatim>\<open>undefined >= n\<close> is false; a write past the end does not occur with 24 entries,
  and the model leaves a shorter array as it is.\<close>

definition checkHourlyLimit :: "safety_config \<Rightarrow> world \<Rightarrow> bool" where
  "checkHourlyLimit st w =
     (let currentHour = getHours (now w)
      in currentHour < length (hourlyAdditionCounts st)
         \<and> hourlyAdditionCounts st ! currentHour \<ge> hourlyLimit st)"

definition updateHourlyCount :: "safety_config \<Rightarrow> world \<Rightarrow> safety_config \<times> world" where
  "updateHourlyCount st w =
     (let currentHour = getHours (now w);
          st' = st\<lparr>hourlyAdditionCounts :=
                      (hourlyAdditionCounts st)[currentHour := hourlyAdditionCounts st ! currentHour + 1]\<rparr>
      in (st', saveSessionStats st' w))"

section \<open>Circuit breaker\<close>

definition resetCircuitBreaker :: "safety_config \<Rightarrow> world \<Rightarrow> safety_config \<times> world" where
  "resetCircuitBreaker st w =
     (let st' = st\<lparr>circuitBreakerTripped := False,
                    circuitBreakerResetTime := None,
                    consecutiveFailures := 0\<rparr>
      in (st', saveSessionStats st' w))"

text \<open>
  \<^verbatim>\<open>checkCircuitBreaker\<close>. The result is \<open>Inr b\<close> when the function returns
  \<open>b\<close> and \<open>Inl e\<close> when it throws the exception with message \<open>e\<close>.
  \<^verbatim>\<open>new Date(null)\<close> is time 0; \<^verbatim>\<open>setSeconds(getSeconds() + n)\<close> moves the
  time by \<open>n\<close> seconds. In the branch that trips the breaker (lines 1001 to 1010) the
  flag and the reset time are assigned, then line 1007 calls \<^verbatim>\<open>logger.warning\<close>:
  the exception leaves the function before \<^verbatim>\<open>saveSessionStats()\<close> and before
  \<^verbatim>\<open>return true\<close>.
\<close>

definition checkCircuitBreaker :: "safety_config \<Rightarrow> world
    \<Rightarrow> (string + bool) \<times> safety_config \<times> world" where
  "checkCircuitBreaker st w =
     (if circuitBreakerTripped st
      then (let resetTime = (case circuitBreakerResetTime st of None \<Rightarrow> 0 | Some t \<Rightarrow> t)
            in if now w > resetTime
               then (let (st', w') = resetCircuitBreaker st w in (Inr False, st', w'))
               else (Inr True, st, w))
      else if consecutiveFailures st \<ge> failureThreshold st
      then (let st' = st\<lparr>circuitBreakerTripped := True,
                          circuitBreakerResetTime :=
                            Some (now w + circuitBreakerTimeout st * 1000)\<rparr>
            in (Inl logger_warning, st', w))
      else (Inr False, st, w))"

section \<open>Strings: phone numbers, group identifiers, error texts\<close>

definition is_digit :: "char \<Rightarrow> bool" where
  "is_digit c = (c \<in> set ''0123456789'')"

fun show_nat :: "nat \<Rightarrow> string" where
  "show_nat n = (if n < 10 then [''0123456789'' ! n]
                 else show_nat (n div 10) @ [''0123456789'' ! (n mod 10)])"

declare show_nat.simps [simp del]

datatype validation = Invalid string | Valid string

text \<open>\<^verbatim>\<open>validatePhoneNumber\<close> on a string: drop every non-digit, then check the
  length and the all-zero number.\<close>

definition validatePhoneNumber :: "string \<Rightarrow> validation" where
  "validatePhoneNumber number =
     (let stripped = filter is_digit number
      in if length stripped < 10 \<or> length stripped > 15
         then Invalid (''Invalid length ('' @ show_nat (length stripped) @ ''). Must be 10-15 digits.'')
         else if list_all (\<lambda>c. c = CHR ''0'') stripped
         then Invalid ''Number contains only zeros''
         else Valid (stripped @ ''@c.us''))"

text \<open>\<^verbatim>\<open>String.prototype.includes\<close>.\<close>

fun str_includes :: "string \<Rightarrow> string \<Rightarrow> bool" where
  "str_includes [] sub = (sub = [])"
| "str_includes (c # cs) sub = (take (length sub) (c # cs) = sub \<or> str_includes cs sub)"

definition isBanRelated :: "string \<Rightarrow> bool" where
  "isBanRelated errorMsg =
     (str_includes errorMsg ''not-authorized'' \<or>
      str_includes errorMsg ''forbidden'' \<or>
      str_includes errorMsg ''denied'' \<or>
      str_includes errorMsg ''blocked'' \<or>
      str_includes errorMsg ''spam'' \<or>
      str_includes errorMsg ''limit'' \<or>
      str_includes errorMsg ''banned'')"

text \<open>The two patterns of \<^verbatim>\<open>isGroupId\<close>: \<^verbatim>\<open>/^\d+@g\.us$/\<close> (the newer format,
  which \<^verbatim>\<open>addMembersToGroup\<close> tests for) and \<^verbatim>\<open>/^\d+-\d+@g\.us$/\<close> (the
  traditional one, with a hyphen).\<close>

definition newer_format :: "string \<Rightarrow> bool" where
  "newer_format s =
     (let ds = takeWhile is_digit s
      in ds \<noteq> [] \<and> dropWhile is_digit s = ''@g.us'')"

definition traditional_format :: "string \<Rightarrow> bool" where
  "traditional_format s =
     (let ds = takeWhile is_digit s
      in ds \<noteq> [] \<and> (case dropWhile is_digit s of
                          [] \<Rightarrow> False
                        | c # rest \<Rightarrow> c = CHR ''-'' \<and> newer_format rest))"

text \<open>\<^verbatim>\<open>String.prototype.trim\<close>. A character of a \<open>string\<close> is a code unit below
  256; the white space among these is the space, the controls 9 to 13 and the
  no-break space (160).\<close>

definition is_space :: "char \<Rightarrow> bool" where
  "is_space c = (c \<in> set [CHR '' '', CHR 0x09, CHR 0x0A, CHR 0x0B, CHR 0x0C, CHR 0x0D, CHR 0xA0])"

definition trim :: "string \<Rightarrow> string" where
  "trim s = rev (dropWhile is_space (rev (dropWhile is_space s)))"

definition isGroupId :: "string \<Rightarrow> bool" where
  "isGroupId input =
     (if input = [] then False
      else traditional_format (trim input) \<or> newer_format (trim input))"

section \<open>Failure tracker\<close>

text \<open>\<^verbatim>\<open>updateFailedNumber\<close>: the \<^verbatim>\<open>Map\<close> is an association list in insertion
  order, as \<^verbatim>\<open>Array.from(entries())\<close> writes it.\<close>

fun upsert_failure :: "string \<Rightarrow> string \<Rightarrow> int \<Rightarrow> (string \<times> failure_record) list
    \<Rightarrow> (string \<times> failure_record) list" where
  "upsert_failure k reason t [] =
     [(k, \<lparr>f_count = 1, firstFailure = t, lastFailure = t, f_reason = reason\<rparr>)]"
| "upsert_failure k reason t ((k', r) # rest) =
     (if k' = k
      then (k', r\<lparr>f_count := f_count r + 1, lastFailure := t, f_reason := reason\<rparr>) # rest
      else (k', r) # upsert_failure k reason t rest)"

definition updateFailedNumber :: "string \<Rightarrow> string \<Rightarrow> safety_config \<Rightarrow> world
    \<Rightarrow> safety_config \<times> world" where
  "updateFailedNumber formattedNumber reason st w =
     (let st' = st\<lparr>failedNumbers := upsert_failure formattedNumber reason (now w) (failedNumbers st)\<rparr>
      in (st', saveSessionStats st' w))"

section \<open>Double-precision arithmetic\<close>

text \<open>
  The numbers of the delay computation are IEEE 754 doubles. A finite double is a real;
  an operation of the source is the operation on the reals followed by \<open>fl\<close>, the
  rounding to the nearest double, ties to the even significand. \<open>ulp_exp x\<close> is the
  exponent of the last place of the doubles around \<open>x\<close>: 52 below the binary
  exponent of \<open>x\<close>, and at least -1074 (the subnormal range). A decimal literal of
  the source is the rounding of its value. Overflow is not in the model: the values of
  the delay computation are products of a few factors below \<open>2\<^sup>5\<^sup>3\<close>.
\<close>

definition rne :: "real \<Rightarrow> int" where
  "rne y = (let f = \<lfloor>y\<rfloor>
            in if y - of_int f < 1 / 2 then f
               else if y - of_int f > 1 / 2 then f + 1
               else if even f then f else f + 1)"

definition ulp_exp :: "real \<Rightarrow> int" where
  "ulp_exp x = max \<lfloor>log 2 \<bar>x\<bar>\<rfloor> (- 1022) - 52"

definition fl :: "real \<Rightarrow> real" where
  "fl x = (if x = 0 then 0 else of_int (rne (x / 2 powi ulp_exp x)) * 2 powi ulp_exp x)"

section \<open>Delay scheduler\<close>

text \<open>
  \<^verbatim>\<open>getSmartDelay\<close>, in milliseconds. The random source is read once for the base
  delay, once more when pattern variation is on, a third time when that draw is below
  0.15, and a fourth time when the third is below 0.7. With \<^verbatim>\<open>dailyLimit\<close> 0 and a
  positive \<^verbatim>\<open>addedToday\<close> the quotient is \<^verbatim>\<open>Infinity\<close> and so is the delay:
  that is \<open>None\<close>. With both 0 the quotient is \<^verbatim>\<open>NaN\<close>, and with a negative
  \<^verbatim>\<open>addedToday\<close> it is \<^verbatim>\<open>-Infinity\<close>: neither is above 0.7.
  The sum \<^verbatim>\<open>maxDelay - minDelay + 1\<close> and the final product by 1000 are on integers
  and exact.
\<close>

definition getSmartDelay :: "safety_config \<Rightarrow> world \<Rightarrow> int option \<times> world" where
  "getSmartDelay st w =
     (let (r1, w1) = next_random w;
          baseDelay = \<lfloor>fl (fl (r1 * real_of_int (maxDelay st - minDelay st + 1))
                            + real_of_int (minDelay st))\<rfloor>;
          hour = getHours (now w1);
          m1 = (if hour \<ge> 1 \<and> hour \<le> 4 then fl (1 * (3 / 2)) else (1 :: real));
          dailyProgress = fl (real_of_int (addedToday st) / real_of_int (dailyLimit st));
          m2 = (if dailyLimit st \<noteq> 0 \<and> dailyProgress > fl (7 / 10)
                then fl (m1 * fl (1 + fl (dailyProgress - fl (7 / 10)))) else m1);
          m3 = (if consecutiveFailures st > 0
                then fl (m2 * fl (1 + fl (real_of_int (consecutiveFailures st) * fl (1 / 10))))
                else m2);
          (m4, w4) =
            (if patternVariation st
             then (let (r2, w2) = next_random w1
                   in if r2 < fl (15 / 100)
                      then (let (r3, w3) = next_random w2
                            in if r3 < fl (7 / 10)
                               then (let (r4, w4) = next_random w3
                                     in (fl (m3 * fl (3 / 2 + r4)), w4))
                               else (fl (m3 * fl (7 / 10)), w3))
                      else (m3, w2))
             else (m3, w1))
      in (if dailyLimit st = 0 \<and> addedToday st > 0 then None
          else Some (\<lfloor>fl (real_of_int baseDelay * m4)\<rfloor> * 1000), w4))"

section \<open>One add attempt\<close>

text \<open>
  \<^verbatim>\<open>saveContactThenAdd\<close>. The first thing it does is \<^verbatim>\<open>validatePhoneNumber\<close>:
  on a value that is not a string \<^verbatim>\<open>number.replace\<close> is not a function and a
  \<^verbatim>\<open>TypeError\<close> is thrown; an invalid number throws the validation's reason. What follows
  (the registration check, the contact lookup and \<^verbatim>\<open>addParticipants\<close>, each tried up
  to three times) is between the messaging client and its pauses: the environment gives
  the outcome for the item at index \<open>i\<close> and the time it took. The pause between
  the two steps draws from \<^verbatim>\<open>Math.random()\<close> as well; that draw is part of the time
  the environment gives, and \<open>rnd\<close> holds the draws of the delay scheduler. An
  exception of \<^verbatim>\<open>logger.warning\<close> inside (lines 394 to 469, on the retry paths) is
  one of the exceptions the environment can give.
\<close>

definition not_a_function :: string where
  "not_a_function = ''number.replace is not a function''"

definition saveContactThenAdd :: "item \<Rightarrow> string \<Rightarrow> nat \<Rightarrow> world \<Rightarrow> add_outcome \<times> world" where
  "saveContactThenAdd number groupId i w = (case number of
       Num n \<Rightarrow> (AddThrew not_a_function, w)
     | Str s \<Rightarrow> (case validatePhoneNumber s of
           Invalid reason \<Rightarrow> (AddThrew reason, w)
         | Valid formatted \<Rightarrow> (add_result w i, w\<lparr>now := now w + add_ms w i\<rparr>)))"

section \<open>Batch processor\<close>

datatype detail_status = Added | Failed | Skipped

record detail =
  d_number :: item
  d_status :: detail_status
  d_reason :: string

datatype message =
    AlreadyAdding
  | ProtectionActive int
  | HourlyLimitReached int
  | DailyLimitReached int
  | NotAGroup
  | InvalidGroup
  | PausedFailures
  | UnexpectedError string

text \<open>The object \<^verbatim>\<open>results\<close>; \<^verbatim>\<open>batch.estimatedCompletion\<close>, a timestamp for
  the display that nothing reads back, is left out (it is a valid date for delays in the
  range that the configuration route accepts, up to 600 seconds).\<close>

record results =
  success :: bool
  added :: int
  failed :: int
  skipped :: int
  details :: "detail list"
  batch_total :: nat
  batch_processed :: nat
  batch_remaining :: nat
  message :: "message option"

text \<open>How a call of \<^verbatim>\<open>addMembersToGroup\<close> ends: it returns
  \<^verbatim>\<open>{success: false, message}\<close> before any item is looked at, it returns the
  results object, or the promise is rejected with an exception (one that is thrown
  outside the \<^verbatim>\<open>try\<close> block of lines 608 to 814).\<close>

datatype outcome = Rejected message | Finished results | Raised string

text \<open>How one iteration of the loop ends: it goes on to the next index, it returns
  from \<^verbatim>\<open>addMembersToGroup\<close> with a partial result, or an exception leaves the loop
  for the outer \<^verbatim>\<open>catch\<close>.\<close>

datatype step =
    Continue safety_config world results
  | Return safety_config world results
  | Throw safety_config world results string

fun step_state :: "step \<Rightarrow> safety_config" where
  "step_state (Continue st w res) = st"
| "step_state (Return st w res) = st"
| "step_state (Throw st w res e) = st"

fun step_world :: "step \<Rightarrow> world" where
  "step_world (Continue st w res) = w"
| "step_world (Return st w res) = w"
| "step_world (Throw st w res e) = w"

fun step_results :: "step \<Rightarrow> results" where
  "step_results (Continue st w res) = res"
| "step_results (Return st w res) = res"
| "step_results (Throw st w res e) = res"

fun returns :: "step \<Rightarrow> bool" where
  "returns (Return st w res) = True"
| "returns s = False"

text \<open>The check after each item (lines 763 to 772); an exception of
  \<^verbatim>\<open>checkCircuitBreaker\<close> is inside the outer \<^verbatim>\<open>try\<close> here.\<close>

definition after_item :: "safety_config \<Rightarrow> world \<Rightarrow> results \<Rightarrow> step" where
  "after_item st w res = (case checkCircuitBreaker st w of
       (Inl e, st', w') \<Rightarrow> Throw st' w' res e
     | (Inr True, st', w') \<Rightarrow>
         Return st' (saveSessionStats st' w') (res\<lparr>success := False, message := Some PausedFailures\<rparr>)
     | (Inr False, st', w') \<Rightarrow> Continue st' w' res)"

text \<open>The success path (lines 675 to 696).\<close>

definition on_success :: "item list \<Rightarrow> nat \<Rightarrow> safety_config \<Rightarrow> world \<Rightarrow> results \<Rightarrow> step" where
  "on_success numbers i st w res =
     (let st1 = st\<lparr>addedToday := addedToday st + 1\<rparr>;
          (st2, w2) = updateHourlyCount st1 w;
          res2 = res\<lparr>added := added res + 1,
                     details := details res @
                       [\<lparr>d_number = numbers ! i, d_status = Added,
                         d_reason = ''Successfully saved contact and added to group''\<rparr>]\<rparr>;
          st3 = st2\<lparr>consecutiveFailures := 0\<rparr>;
          w3 = saveSessionStats st3 w2;
          w4 = (if int i < int (length numbers) - 1
                then (let (delay, w') = getSmartDelay st3 w3
                      in sleep SmartDelay (map_option real_of_int delay) w')
                else w3)
      in after_item st3 w4 res2)"

text \<open>The pause after each failure (lines 757 to 760).\<close>

definition failure_backoff :: "safety_config \<Rightarrow> world \<Rightarrow> world" where
  "failure_backoff st w =
     (let failureDelay = min (60 + consecutiveFailures st * 30) 300
      in sleep FailureBackoff (Some (real_of_int (failureDelay * 1000))) w)"

text \<open>The \<^verbatim>\<open>catch\<close> of one item (lines 697 to 761). \<^verbatim>\<open>validatePhoneNumber\<close> is
  called again there, and throws again on a value that is not a string: that exception
  leaves the loop. For a ban-indicative error text the first statement of the branch
  (line 729) is a call of \<^verbatim>\<open>logger.warning\<close>: that exception leaves the loop as
  well, after the failure was recorded; the extended break and the trip of the breaker
  for ban risk (lines 731 to 754) come after it.\<close>

definition on_failure :: "item list \<Rightarrow> nat \<Rightarrow> string \<Rightarrow> safety_config \<Rightarrow> world \<Rightarrow> results \<Rightarrow> step" where
  "on_failure numbers i msg st w res =
     (let errorMsg = (if msg = [] then ''Unknown error'' else msg);
          isBan = isBanRelated errorMsg;
          st1 = st\<lparr>consecutiveFailures := consecutiveFailures st + 1\<rparr>
      in case numbers ! i of
           Num n \<Rightarrow> Throw st1 w res not_a_function
         | Str s \<Rightarrow>
            (let formattedNumber = (case validatePhoneNumber s of
                                      Valid formatted \<Rightarrow> formatted
                                    | Invalid reason \<Rightarrow> s @ ''@c.us'');
                 (st2, w2) = updateFailedNumber formattedNumber errorMsg st1 w;
                 res2 = res\<lparr>details := details res @
                              [\<lparr>d_number = numbers ! i, d_status = Failed, d_reason = errorMsg\<rparr>],
                            failed := failed res + 1\<rparr>
             in if isBan
                then Throw st2 w2 res2 logger_warning
                else after_item st2 (failure_backoff st2 w2) res2))"

text \<open>\<^verbatim>\<open>nextHour\<close> of lines 653 to 657: the next hour, minute 0, second 5; the
  milliseconds stay.\<close>

definition next_hour :: "int \<Rightarrow> int" where
  "next_hour t = (t div 3600000 + 1) * 3600000 + 5000 + t mod 1000"

text \<open>The start of an iteration (lines 611 to 630): the cursor is set and saved, and
  every \<^verbatim>\<open>maxBatchSize\<close> items the batch cooldown is awaited.
  \<^verbatim>\<open>i % maxBatchSize\<close> is \<^verbatim>\<open>NaN\<close> for \<^verbatim>\<open>maxBatchSize\<close> 0.\<close>

definition begin_item :: "item list \<Rightarrow> nat \<Rightarrow> safety_config \<Rightarrow> world \<Rightarrow> results
    \<Rightarrow> safety_config \<times> world \<times> results" where
  "begin_item numbers i st w res =
     (let st1 = st\<lparr>currentBatchIndex := i\<rparr>;
          w1 = saveSessionStats st1 w;
          res1 = res\<lparr>batch_processed := i, batch_remaining := length numbers - i\<rparr>;
          w2 = (if i > 0 \<and> maxBatchSize st1 \<noteq> 0 \<and> int i mod maxBatchSize st1 = 0
                then sleep BatchCooldown (Some (real_of_int (batchCooldown st1 * 1000))) w1
                else w1)
      in (st1, w2, res1))"

text \<open>One iteration of the loop (lines 611 to 772). When the hourly limit is reached
  the item is recorded as skipped and the wait for the next hour is computed; it is
  positive, and line 661 calls \<^verbatim>\<open>logger.warning\<close> before the timer is started:
  the exception leaves the loop.\<close>

definition process_item :: "string \<Rightarrow> item list \<Rightarrow> nat \<Rightarrow> safety_config \<Rightarrow> world \<Rightarrow> results \<Rightarrow> step" where
  "process_item groupId numbers i st w res =
     (let (st1, w2, res1) = begin_item numbers i st w res
      in if addedToday st1 \<ge> dailyLimit st1
         then Continue st1 w2
                (res1\<lparr>details := details res1 @
                         [\<lparr>d_number = numbers ! i, d_status = Skipped, d_reason = ''Daily limit reached''\<rparr>],
                       skipped := skipped res1 + 1\<rparr>)
         else if checkHourlyLimit st1 w2
         then (let res2 = res1\<lparr>details := details res1 @
                                  [\<lparr>d_number = numbers ! i, d_status = Skipped,
                                    d_reason = ''Hourly limit reached''\<rparr>],
                                skipped := skipped res1 + 1\<rparr>;
                   waitTime = next_hour (now w2) - now w2
               in if waitTime > 0
                  then Throw st1 w2 res2 logger_warning
                  else Continue st1 w2 res2)
         else (case saveContactThenAdd (numbers ! i) groupId i w2 of
                 (AddOk, w3) \<Rightarrow> on_success numbers i st1 w3 res1
               | (AddThrew msg, w3) \<Rightarrow> on_failure numbers i msg st1 w3 res1))"

text \<open>The \<^verbatim>\<open>for\<close> loop, from index \<open>i\<close>.\<close>

function batch_loop :: "string \<Rightarrow> item list \<Rightarrow> nat \<Rightarrow> safety_config \<Rightarrow> world \<Rightarrow> results \<Rightarrow> step" where
  "batch_loop groupId numbers i st w res =
     (if i < length numbers
      then (case process_item groupId numbers i st w res of
              Continue st' w' res' \<Rightarrow> batch_loop groupId numbers (Suc i) st' w' res'
            | Return st' w' res' \<Rightarrow> Return st' w' res'
            | Throw st' w' res' e \<Rightarrow> Throw st' w' res' e)
      else Continue st w res)"
  by pat_completeness auto
termination
  by (relation "measure (\<lambda>(groupId, numbers, i, st, w, res). length numbers - i)") auto

declare batch_loop.simps [simp del]

text \<open>The admission checks (lines 495 to 535): \<open>None\<close> when all of them pass, and
  otherwise the way the call ends. They are outside \<^verbatim>\<open>try\<close>: an exception of
  \<^verbatim>\<open>checkCircuitBreaker\<close> rejects the promise.\<close>

definition pre_checks :: "safety_config \<Rightarrow> world \<Rightarrow> outcome option \<times> safety_config \<times> world" where
  "pre_checks st w =
     (if isAddingMembers st then (Some (Rejected AlreadyAdding), st, w)
      else
       (let (st1, w1) =
              (if lastDateReset st \<noteq> toDateString (now w)
               then (let s = st\<lparr>addedToday := 0,
                                hourlyAdditionCounts := replicate 24 0,
                                lastDateReset := toDateString (now w)\<rparr>
                     in (s, saveSessionStats s w))
               else (st, w))
        in case checkCircuitBreaker st1 w1 of
             (Inl e, st2, w2) \<Rightarrow> (Some (Raised e), st2, w2)
           | (Inr True, st2, w2) \<Rightarrow>
               (let resetTime = (case circuitBreakerResetTime st2 of None \<Rightarrow> 0 | Some t \<Rightarrow> t)
                in (Some (Rejected (ProtectionActive
                      \<lceil>real_of_int (resetTime - now w2) / (60 * 1000)\<rceil>)), st2, w2))
           | (Inr False, st2, w2) \<Rightarrow>
               if checkHourlyLimit st2 w2
               then (Some (Rejected (HourlyLimitReached (hourlyLimit st2))), st2, w2)
               else if dailyLimit st2 - addedToday st2 \<le> 0
               then (Some (Rejected (DailyLimitReached (dailyLimit st2))), st2, w2)
               else (None, st2, w2)))"

text \<open>The verification of the group (lines 537 to 579). An identifier of the newer
  format is checked with \<^verbatim>\<open>getParticipants\<close>, every other one with
  \<^verbatim>\<open>getChatById\<close>; the environment gives the answer and the time it takes
  (whether the client has a method \<^verbatim>\<open>getParticipants\<close> is a matter of the
  library: a client without it makes the check fail). When the check of an identifier
  of the newer format fails, the \<^verbatim>\<open>catch\<close> of lines 559
  to 565 increments \<^verbatim>\<open>consecutiveFailures\<close> and calls \<^verbatim>\<open>logger.warning\<close>:
  the exception leaves the \<^verbatim>\<open>catch\<close> and, not being inside another
  \<^verbatim>\<open>try\<close>, rejects the promise.\<close>

definition verify_group :: "string \<Rightarrow> safety_config \<Rightarrow> world \<Rightarrow> outcome option \<times> safety_config \<times> world" where
  "verify_group groupId st w =
     (let w' = w\<lparr>now := now w + verify_ms w\<rparr>
      in if newer_format groupId
         then (case verify_result w of
                 VerifyFailed \<Rightarrow>
                   (Some (Raised logger_warning),
                    st\<lparr>consecutiveFailures := consecutiveFailures st + 1\<rparr>, w')
               | Verified g \<Rightarrow> (None, st, w'))
         else (case verify_result w of
                 Verified g \<Rightarrow>
                   (if \<not> g then (Some (Rejected NotAGroup), st, w') else (None, st, w'))
               | VerifyFailed \<Rightarrow>
                   (Some (Rejected InvalidGroup),
                    st\<lparr>consecutiveFailures := consecutiveFailures st + 1\<rparr>, w')))"

definition admit :: "string \<Rightarrow> safety_config \<Rightarrow> world \<Rightarrow> outcome option \<times> safety_config \<times> world" where
  "admit groupId st w = (case pre_checks st w of
       (Some out, st1, w1) \<Rightarrow> (Some out, st1, w1)
     | (None, st1, w1) \<Rightarrow> verify_group groupId st1 w1)"

text \<open>What follows the admission (lines 581 to 814): the batch is set up, the loop
  runs inside \<^verbatim>\<open>try\<close>, and \<^verbatim>\<open>finally\<close> runs on every way out of it.\<close>

definition finally_block :: "safety_config \<Rightarrow> world \<Rightarrow> safety_config \<times> world" where
  "finally_block st w =
     (let st' = st\<lparr>isAddingMembers := False, userStatus := Ready\<rparr>
      in (st', saveSessionStats st' w))"

definition start_batch :: "string \<Rightarrow> item list \<Rightarrow> safety_config \<Rightarrow> safety_config" where
  "start_batch groupId numbers st =
     (let st1 = st\<lparr>isAddingMembers := True, userStatus := Adding\<rparr>
      in if currentBatch st1 \<noteq> [] \<and> lastGroupId st1 = Some groupId
         then st1\<lparr>currentBatch := numbers\<rparr>
         else st1\<lparr>currentBatch := numbers, currentBatchIndex := 0\<rparr>)"

definition initial_results :: "item list \<Rightarrow> results" where
  "initial_results numbers =
     \<lparr>success = True, added = 0, failed = 0, skipped = 0, details = [],
      batch_total = length numbers, batch_processed = 0, batch_remaining = length numbers,
      message = None\<rparr>"

definition run_batch :: "string \<Rightarrow> item list \<Rightarrow> string \<Rightarrow> safety_config \<Rightarrow> world
    \<Rightarrow> outcome \<times> safety_config \<times> world" where
  "run_batch groupId numbers msg st w =
     (let st0 = start_batch groupId numbers st
      in case batch_loop groupId numbers (currentBatchIndex st0) st0 w (initial_results numbers) of
           Continue st1 w1 res \<Rightarrow>
             (let w2 = (if msg \<noteq> [] \<and> added res > 0
                        then w1\<lparr>outbox := outbox w1 @ [(groupId, msg)]\<rparr> else w1);
                  (st2, w3) =
                    (if currentBatch st1 \<noteq> []
                        \<and> int (currentBatchIndex st1) \<ge> int (length (currentBatch st1)) - 1
                     then (st1\<lparr>currentBatch := [], currentBatchIndex := 0, lastGroupId := None\<rparr>,
                           clearBatchData w2)
                     else (st1, w2));
                  (st3, w4) = finally_block st2 w3
              in (Finished res, st3, w4))
         | Return st1 w1 res \<Rightarrow>
             (let (st2, w2) = finally_block st1 w1 in (Finished res, st2, w2))
         | Throw st1 w1 res e \<Rightarrow>
             (let (st2, w2) = finally_block st1 w1
              in (Finished (res\<lparr>success := False, message := Some (UnexpectedError e)\<rparr>), st2, w2)))"

definition addMembersToGroup :: "string \<Rightarrow> item list \<Rightarrow> string \<Rightarrow> safety_config \<Rightarrow> world
    \<Rightarrow> outcome \<times> safety_config \<times> world" where
  "addMembersToGroup groupId numbers msg st w = (case admit groupId st w of
       (Some out, st1, w1) \<Rightarrow> (out, st1, w1)
     | (None, st1, w1) \<Rightarrow> run_batch groupId numbers msg st1 w1)"

section \<open>Auxiliary notions\<close>

text \<open>Notions used to state what the loop preserves: whether a step ended in an
  exception, the number of items a result accounts for, and that the batch file was only
  written with records that carry a given group identifier. A step that ends in an
  exception has recorded its item or not, depending on where the exception was thrown.\<close>

fun throws :: "step \<Rightarrow> bool" where
  "throws (Throw st w res e) = True"
| "throws s = False"

definition tally :: "results \<Rightarrow> int" where
  "tally res = added res + failed res + skipped res"

definition extends :: "string option \<Rightarrow> world \<Rightarrow> world \<Rightarrow> bool" where
  "extends g w w' \<longleftrightarrow>
     (\<exists>ws. batch_writes w' = batch_writes w @ ws \<and> (\<forall>r\<in>set ws. b_lastGroupId r = g))"

text \<open>What one step leaves as it was, and what it adds to the result.\<close>

definition step_ok :: "item list \<Rightarrow> nat \<Rightarrow> safety_config \<Rightarrow> world \<Rightarrow> results \<Rightarrow> step \<Rightarrow> bool" where
  "step_ok numbers i st w res S \<longleftrightarrow>
     lastGroupId (step_state S) = lastGroupId st
     \<and> currentBatch (step_state S) = currentBatch st
     \<and> currentBatchIndex (step_state S) = currentBatchIndex st
     \<and> extends (lastGroupId st) w (step_world S)
     \<and> (map d_number (details (step_results S)) = map d_number (details res) @ [numbers ! i]
          \<or> throws S \<and> map d_number (details (step_results S)) = map d_number (details res))
     \<and> (throws S \<or> tally (step_results S) = tally res + 1)"

definition loop_ok :: "item list \<Rightarrow> nat \<Rightarrow> safety_config \<Rightarrow> world \<Rightarrow> results \<Rightarrow> step \<Rightarrow> bool" where
  "loop_ok numbers i st w res L \<longleftrightarrow>
     lastGroupId (step_state L) = lastGroupId st
     \<and> currentBatch (step_state L) = currentBatch st
     \<and> extends (lastGroupId st) w (step_world L)
     \<and> (case L of
           Continue st' w' res' \<Rightarrow>
             map d_number (details res') = map d_number (details res) @ drop i numbers
             \<and> tally res' = tally res + int (length numbers - i)
             \<and> currentBatchIndex st' =
                 (if i < length numbers then length numbers - 1 else currentBatchIndex st)
         | Return st' w' res' \<Rightarrow>
             i \<le> currentBatchIndex st' \<and> currentBatchIndex st' < length numbers
             \<and> map d_number (details res') =
                 map d_number (details res) @ take (Suc (currentBatchIndex st') - i) (drop i numbers)
         | Throw st' w' res' e \<Rightarrow>
             i \<le> currentBatchIndex st' \<and> currentBatchIndex st' < length numbers
             \<and> (map d_number (details res') =
                   map d_number (details res) @ take (currentBatchIndex st' - i) (drop i numbers)
                  \<or> map d_number (details res') =
                   map d_number (details res) @ take (Suc (currentBatchIndex st') - i) (drop i numbers)))"

fun continues :: "step \<Rightarrow> bool" where
  "continues (Continue st w res) = True"
| "continues s = False"

text \<open>Room for \<open>k\<close> more additions: in the day, and in every hour; the breaker is
  not tripped. The details written for an added item and for one skipped at the daily
  limit, and the items that \<^verbatim>\<open>validatePhoneNumber\<close> accepts.\<close>

definition quota_room :: "nat \<Rightarrow> safety_config \<Rightarrow> bool" where
  "quota_room k st \<longleftrightarrow>
     \<not> circuitBreakerTripped st \<and> 0 < failureThreshold st
     \<and> length (hourlyAdditionCounts st) = 24
     \<and> list_all (\<lambda>c. c + int k \<le> hourlyLimit st) (hourlyAdditionCounts st)
     \<and> dailyLimit st - addedToday st = int k"

definition added_detail :: "item \<Rightarrow> detail" where
  "added_detail x = \<lparr>d_number = x, d_status = Added,
                      d_reason = ''Successfully saved contact and added to group''\<rparr>"

definition skipped_daily :: "item \<Rightarrow> detail" where
  "skipped_daily x = \<lparr>d_number = x, d_status = Skipped, d_reason = ''Daily limit reached''\<rparr>"

definition valid_item :: "item \<Rightarrow> bool" where
  "valid_item x = (case x of Num n \<Rightarrow> False
                   | Str s \<Rightarrow> (case validatePhoneNumber s of Valid f \<Rightarrow> True | Invalid r \<Rightarrow> False))"

section \<open>Example states\<close>

text \<open>The object as \<^verbatim>\<open>storage.service.js\<close> creates it (no environment variable set),
  on the day \<open>today\<close>, and a world in which the group is verified, every add succeeds
  after 1.5 seconds and every random draw is 0.5.\<close>

definition default_stats :: "int \<Rightarrow> safety_config" where
  "default_stats today = \<lparr>addedToday = 0, lastDateReset = today, hourlyAdditionCounts = replicate 24 0,
     circuitBreakerTripped = False, circuitBreakerResetTime = None, isAddingMembers = False,
     userStatus = Ready, consecutiveFailures = 0, failedNumbers = [], currentBatch = [],
     currentBatchIndex = 0, lastGroupId = None, minDelay = 30, maxDelay = 90, dailyLimit = 20000,
     maxBatchSize = 1000, batchCooldown = 300, failureThreshold = 10, circuitBreakerTimeout = 1800,
     hourlyLimit = 1000, patternVariation = True\<rparr>"

definition calm_world :: "int \<Rightarrow> world" where
  "calm_world t = \<lparr>now = t, rnd = (\<lambda>n. 1/2), rnd_ix = 0, verify_result = Verified True, verify_ms = 100,
     add_result = (\<lambda>i. AddOk), add_ms = (\<lambda>i. 1500),
     stats_file = None, failed_file = None, batches_file = None, batch_writes = [], sleeps = [], outbox = []\<rparr>"

text \<open>Draws of the random source, each of them a double in \<open>[0, 1)\<close>: four that
  take the longer pattern break (base delay 90, factor 2.25), three that take the shorter
  one (base delay 30, factor 0.7), and four that take the longer break with the first and
  the last draw close to 1: \<open>1 - 2\<^sup>-\<^sup>5\<^sup>2\<close>, and the largest double below 1,
  \<open>1 - 2\<^sup>-\<^sup>5\<^sup>3\<close>.\<close>

definition long_break_draws :: "nat \<Rightarrow> real" where
  "long_break_draws n = (if n = 0 then 63 / 64 else if n = 1 then 1 / 8
                         else if n = 2 then 1 / 2 else 3 / 4)"

definition short_break_draws :: "nat \<Rightarrow> real" where
  "short_break_draws n = (if n = 0 then 0 else if n = 1 then 1 / 8 else 3 / 4)"

definition near_one_draws :: "nat \<Rightarrow> real" where
  "near_one_draws n = (if n = 0 then 1 - 1 / 2 ^ 52 else if n = 1 then 1 / 8
                       else if n = 2 then 1 / 2 else 1 - 1 / 2 ^ 52)"

definition largest_draws :: "nat \<Rightarrow> real" where
  "largest_draws n = (if n = 0 then 1 - 1 / 2 ^ 53 else if n = 1 then 1 / 8
                      else if n = 2 then 1 / 2 else 1 - 1 / 2 ^ 53)"

text \<open>A world in which every add is refused with the text \<^verbatim>\<open>forbidden\<close>.\<close>

definition refusing_world :: "int \<Rightarrow> world" where
  "refusing_world t = (calm_world t)\<lparr>add_result := (\<lambda>i. AddThrew ''forbidden'')\<rparr>"

text \<open>A batch of four valid numbers.\<close>

definition four_numbers :: "item list" where
  "four_numbers = [Str ''919876543210'', Str ''919876543211'', Str ''919876543212'',
                   Str ''919876543213'']"

text \<open>A batch file left by an interrupted run of the four numbers, cursor at 2, and
  the state after a restart that loads it.\<close>

definition stored_batch :: batch_record where
  "stored_batch = \<lparr>b_currentBatch = four_numbers, b_currentBatchIndex = 2,
                    b_lastGroupId = Some ''120363413164388361@g.us''\<rparr>"

definition restarted :: safety_config where
  "restarted = loadBatchData (default_stats 0) ((calm_world 0)\<lparr>batches_file := Some stored_batch\<rparr>)"

text \<open>A batch of seven valid numbers.\<close>

definition seven_numbers :: "item list" where
  "seven_numbers = [Str ''919876543210'', Str ''919876543211'', Str ''919876543212'',
                    Str ''919876543213'', Str ''919876543214'', Str ''919876543215'',
                    Str ''919876543216'']"

text \<open>An hourly limit of 1, and two submissions of one number each on the same day: the
  first at 00:30, the second at 23:59:59 in the state the first one left.\<close>

definition one_per_hour :: safety_config where
  "one_per_hour = (default_stats 0)\<lparr>hourlyLimit := 1\<rparr>"

definition after_first_call :: "outcome \<times> safety_config \<times> world" where
  "after_first_call =
     addMembersToGroup ''120363413164388361@g.us'' [Str ''919876543210''] []
       one_per_hour (calm_world 1800000)"

definition second_call :: "outcome \<times> safety_config \<times> world" where
  "second_call =
     addMembersToGroup ''120363413164388361@g.us'' [Str ''919876543211''] []
       (fst (snd after_first_call)) (calm_world 86399000)"

section \<open>Properties\<close>

lemmas model_defs =
  addMembersToGroup_def admit_def pre_checks_def verify_group_def run_batch_def start_batch_def
  initial_results_def finally_block_def begin_item_def process_item_def on_success_def on_failure_def
  after_item_def failure_backoff_def next_hour_def saveContactThenAdd_def validatePhoneNumber_def
  is_digit_def isBanRelated_def newer_format_def checkCircuitBreaker_def resetCircuitBreaker_def
  checkHourlyLimit_def updateHourlyCount_def updateFailedNumber_def saveSessionStats_def
  clearBatchData_def next_random_def sleep_def timer_ms_def getHours_def
  toDateString_def not_a_function_def logger_warning_def default_stats_def calm_world_def Let_def

subsection \<open>Rounding to a double\<close>

lemma rne_int [simp]: "rne (of_int n) = n"
  by (simp add: rne_def)

lemma rne_mono: "y \<le> z \<Longrightarrow> rne y \<le> rne z"
proof -
  assume yz: "y \<le> z"
  have le: "\<lfloor>y\<rfloor> \<le> \<lfloor>z\<rfloor>" using yz by (rule floor_mono)
  show ?thesis
  proof (cases "\<lfloor>y\<rfloor> = \<lfloor>z\<rfloor>")
    case True
    then show ?thesis using yz by (auto simp: rne_def Let_def)
  next
    case False
    then have "\<lfloor>y\<rfloor> + 1 \<le> \<lfloor>z\<rfloor>" using le by simp
    moreover have "rne y \<le> \<lfloor>y\<rfloor> + 1" by (simp add: rne_def Let_def)
    moreover have "\<lfloor>z\<rfloor> \<le> rne z" by (simp add: rne_def Let_def)
    ultimately show ?thesis by linarith
  qed
qed

lemma rne_ge: "of_int a \<le> y \<Longrightarrow> a \<le> rne y"
  using rne_mono [of "of_int a" y] by simp

lemma rne_le: "y \<le> of_int b \<Longrightarrow> rne y \<le> b"
  using rne_mono [of y "of_int b"] by simp

lemma two_powi_pos: "0 < (2::real) powi n"
  by simp

lemma powr_powi: "2 powr real_of_int n = (2::real) powi n"
  by (simp add: powr_real_of_int')

lemma floor_log2_iff:
  assumes "0 < x"
  shows "\<lfloor>log 2 x\<rfloor> = e \<longleftrightarrow> 2 powi e \<le> x \<and> x < 2 powi (e + 1)"
  using floor_log_eq_powr_iff [of x 2 e] assms unfolding powr_powi by simp

lemma floor_log2:
  assumes "0 < x"
  shows "2 powi \<lfloor>log 2 x\<rfloor> \<le> x" "x < 2 powi (\<lfloor>log 2 x\<rfloor> + 1)"
  using floor_log2_iff [OF assms, of "\<lfloor>log 2 x\<rfloor>"] by simp_all

lemma floor_log2_eq:
  assumes "2 powi e \<le> x" "x < 2 powi (e + 1)"
  shows "\<lfloor>log 2 x\<rfloor> = e"
proof -
  have "0 < x" using assms(1) two_powi_pos [of e] by linarith
  then show ?thesis
    using floor_log2_iff [of x e] assms by simp
qed

lemma ulp_exp_mono:
  assumes "0 < x" "x \<le> y"
  shows "ulp_exp x \<le> ulp_exp y"
proof -
  have "log 2 x \<le> log 2 y" using assms by simp
  then have "\<lfloor>log 2 x\<rfloor> \<le> \<lfloor>log 2 y\<rfloor>" by (rule floor_mono)
  then show ?thesis using assms by (simp add: ulp_exp_def)
qed

lemma powi_split: "(2::real) powi (a + b) = 2 powi a * 2 powi b"
  by (simp add: power_int_add)

text \<open>The rounding of a positive number stays within its binade.\<close>

lemma fl_upper:
  assumes "0 < x"
  shows "fl x \<le> 2 powi (ulp_exp x + 53)"
proof -
  let ?u = "(2::real) powi ulp_exp x"
  have "x < 2 powi (\<lfloor>log 2 x\<rfloor> + 1)" using floor_log2 [OF assms] by simp
  also have "\<dots> \<le> 2 powi (ulp_exp x + 53)"
    using assms by (intro power_int_increasing) (simp_all add: ulp_exp_def)
  finally have "x < 2 powi (ulp_exp x + 53)" .
  then have "x / ?u < 2 powi 53"
    by (simp add: powi_split pos_divide_less_eq mult.commute)
  then have "x / ?u \<le> of_int (2 ^ 53)" by simp
  then have "rne (x / ?u) \<le> 2 ^ 53" by (rule rne_le)
  then have "of_int (rne (x / ?u)) \<le> (2::real) powi 53"
    by (metis of_int_le_iff of_int_numeral of_int_power power_int_numeral)
  then have "of_int (rne (x / ?u)) * ?u \<le> 2 powi 53 * ?u"
    by (intro mult_right_mono) simp_all
  then show ?thesis
    using assms by (simp add: fl_def powi_split mult.commute)
qed

lemma fl_lower:
  assumes "0 < x" "- 1022 \<le> \<lfloor>log 2 x\<rfloor>"
  shows "2 powi (ulp_exp x + 52) \<le> fl x"
proof -
  let ?u = "(2::real) powi ulp_exp x"
  have e: "ulp_exp x + 52 = \<lfloor>log 2 x\<rfloor>" using assms by (simp add: ulp_exp_def)
  have "2 powi (ulp_exp x + 52) \<le> x" unfolding e using floor_log2 [OF assms(1)] by simp
  then have "2 powi 52 \<le> x / ?u"
    by (simp add: powi_split pos_le_divide_eq mult.commute)
  then have "of_int (2 ^ 52) \<le> x / ?u" by simp
  then have "2 ^ 52 \<le> rne (x / ?u)" by (rule rne_ge)
  then have "(2::real) powi 52 \<le> of_int (rne (x / ?u))"
    by (metis of_int_le_iff of_int_numeral of_int_power power_int_numeral)
  then have "2 powi 52 * ?u \<le> of_int (rne (x / ?u)) * ?u"
    by (intro mult_right_mono) simp_all
  then show ?thesis
    using assms by (simp add: fl_def powi_split mult.commute)
qed

text \<open>Rounding is monotone.\<close>

lemma fl_mono_pos:
  assumes "0 < x" "x \<le> y"
  shows "fl x \<le> fl y"
proof (cases "ulp_exp x = ulp_exp y")
  case True
  have "x / 2 powi ulp_exp y \<le> y / 2 powi ulp_exp y"
    using assms by (simp add: divide_right_mono)
  then have "rne (x / 2 powi ulp_exp y) \<le> rne (y / 2 powi ulp_exp y)" by (rule rne_mono)
  then have "of_int (rne (x / 2 powi ulp_exp y)) * 2 powi ulp_exp y
      \<le> of_int (rne (y / 2 powi ulp_exp y)) * (2::real) powi ulp_exp y"
    by (intro mult_right_mono) simp_all
  then show ?thesis using assms True by (simp add: fl_def)
next
  case False
  then have lt: "ulp_exp x < ulp_exp y" using ulp_exp_mono [OF assms] by simp
  have y: "0 < y" using assms by simp
  have "- 1022 \<le> \<lfloor>log 2 y\<rfloor>" using lt y assms by (simp add: ulp_exp_def max_def split: if_splits)
  then have "2 powi (ulp_exp y + 52) \<le> fl y" by (rule fl_lower [OF y])
  moreover have "fl x \<le> 2 powi (ulp_exp x + 53)" by (rule fl_upper [OF assms(1)])
  moreover have "(2::real) powi (ulp_exp x + 53) \<le> 2 powi (ulp_exp y + 52)"
    using lt by (intro power_int_increasing) simp_all
  ultimately show ?thesis by linarith
qed

lemma fl_nonneg: "0 \<le> x \<Longrightarrow> 0 \<le> fl x"
proof -
  assume "0 \<le> x"
  then have "of_int 0 \<le> x / 2 powi ulp_exp x" by simp
  then have "0 \<le> rne (x / 2 powi ulp_exp x)" by (rule rne_ge)
  then show ?thesis by (simp add: fl_def)
qed

lemma fl_nonpos: "x \<le> 0 \<Longrightarrow> fl x \<le> 0"
proof -
  assume "x \<le> 0"
  then have "x / 2 powi ulp_exp x \<le> of_int 0" by (simp add: divide_le_0_iff)
  then have "rne (x / 2 powi ulp_exp x) \<le> 0" by (rule rne_le)
  then show ?thesis by (simp add: fl_def mult_le_0_iff)
qed

lemma fl_mono:
  assumes "x \<le> y" "0 \<le> y"
  shows "fl x \<le> fl y"
proof (cases "0 < x")
  case True
  then show ?thesis using assms by (simp add: fl_mono_pos)
next
  case False
  then have "fl x \<le> 0" by (simp add: fl_nonpos)
  then show ?thesis using fl_nonneg [OF assms(2)] by linarith
qed

text \<open>The rounding of \<open>x\<close>, given the binade of \<open>x\<close>; and a number with a
  significand of at most 53 bits is a double.\<close>

lemma fl_eval:
  assumes "2 powi e \<le> x" "x < 2 powi (e + 1)" "- 1022 \<le> e" "u = e - 52"
  shows "fl x = of_int (rne (x / 2 powi u)) * 2 powi u"
proof -
  have x: "0 < x" using assms(1) two_powi_pos [of e] by linarith
  then have "ulp_exp x = u"
    using floor_log2_eq [OF assms(1,2)] assms(3,4) by (simp add: ulp_exp_def)
  then show ?thesis using x by (simp add: fl_def)
qed

lemma fl_exact:
  assumes "0 < m" "m < 2 ^ 53" "- 1074 \<le> j"
  shows "fl (of_int m * 2 powi j) = of_int m * 2 powi j"
proof -
  let ?x = "real_of_int m * 2 powi j"
  have x: "0 < ?x" using assms(1) by simp
  have "?x < 2 powi 53 * 2 powi j"
  proof -
    have "real_of_int m < 2 ^ 53"
      using assms(2) by (metis of_int_less_iff of_int_numeral of_int_power)
    then show ?thesis by simp
  qed
  then have "?x < 2 powi (53 + j)" by (simp add: powi_split)
  then have "\<not> 2 powi (53 + j) \<le> ?x" by simp
  moreover have "2 powi \<lfloor>log 2 ?x\<rfloor> \<le> ?x" using floor_log2 [OF x] by simp
  ultimately have "\<not> (2::real) powi (53 + j) \<le> 2 powi \<lfloor>log 2 ?x\<rfloor>" by linarith
  then have "\<lfloor>log 2 ?x\<rfloor> < 53 + j"
    by (metis power_int_increasing not_le one_le_numeral)
  then have k: "0 \<le> j - ulp_exp ?x" using assms(3) x by (simp add: ulp_exp_def)
  define k where "k = nat (j - ulp_exp ?x)"
  define U where "U = (2::real) powi ulp_exp ?x"
  have U: "0 < U" by (simp add: U_def)
  have "j = ulp_exp ?x + int k" using k by (simp add: k_def)
  then have "(2::real) powi j = 2 powi (ulp_exp ?x + int k)" by simp
  then have pj: "(2::real) powi j = U * 2 ^ k"
    by (simp only: powi_split U_def power_int_of_nat)
  have "?x / U = of_int (m * 2 ^ k)" using U by (simp add: pj)
  then have "rne (?x / U) = m * 2 ^ k" by (simp only: rne_int)
  then have "fl ?x = of_int (m * 2 ^ k) * U" using x by (simp add: fl_def U_def)
  also have "\<dots> = ?x" by (simp add: pj)
  finally show ?thesis .
qed

lemma fl_zero [simp]: "fl 0 = 0"
  by (simp add: fl_def)

lemma fl_one [simp]: "fl 1 = 1"
  using fl_exact [of 1 0] by simp

text \<open>The doubles that the bounds of the delay rest on. The literal \<^verbatim>\<open>0.7\<close> is the
  double \<open>6305039478318694 / 2\<^sup>5\<^sup>3\<close>, a little below 0.7, and 30 times that double
  rounds to 21.\<close>

lemma fl_consts:
  "fl 30 = 30" "fl 61 = 61" "fl 91 = 91" "fl (3 / 2) = 3 / 2" "fl (5 / 2) = 5 / 2"
  "fl (455 / 2) = 455 / 2" "fl (1 / 4) = 1 / 4" "fl (9 / 64) = 9 / 64" "fl (5 / 8) = 5 / 8"
  "fl (3 / 4) = 3 / 4"
  using fl_exact [of 30 0] fl_exact [of 61 0] fl_exact [of 91 0] fl_exact [of 3 "-1"]
    fl_exact [of 5 "-1"] fl_exact [of 455 "-1"] fl_exact [of 1 "-2"] fl_exact [of 9 "-6"]
    fl_exact [of 5 "-3"] fl_exact [of 3 "-2"]
  by simp_all

lemma fl_07: "fl (7 / 10) = 6305039478318694 / 2 ^ 53"
  by (subst fl_eval [where e = "-1" and u = "-53"]) (simp_all add: rne_def)

lemma fl_07_exact: "fl (6305039478318694 / 2 ^ 53) = 6305039478318694 / 2 ^ 53"
  using fl_exact [of 6305039478318694 "-53"] by simp

lemma fl_30_07: "fl (30 * (6305039478318694 / 2 ^ 53)) = 21"
  by (subst fl_eval [where e = 4 and u = "-48"]) (simp_all add: rne_def)

lemma fl_07_bounds: "5 / 8 \<le> fl (7 / 10)" "fl (7 / 10) \<le> 3 / 4"
  by (simp_all add: fl_07)

lemma fl_015_bounds: "9 / 64 \<le> fl (15 / 100)" "fl (15 / 100) \<le> 1 / 4"
  using fl_mono [of "9 / 64" "15 / 100"] fl_mono [of "15 / 100" "1 / 4"]
  by (simp_all add: fl_consts)

text \<open>For comparison: 90 times the literal \<^verbatim>\<open>0.7\<close> is the double just below 63.\<close>

lemma fl_90_07: "\<lfloor>fl (90 * fl (7 / 10))\<rfloor> = 62"
  unfolding fl_07
  by (subst fl_eval [where e = 5 and u = "-47"]) (simp_all add: rne_def)


subsection \<open>Delay scheduler\<close>

lemma base_delay_bounds:
  fixes r :: real
  assumes "0 \<le> r" "r < 1"
  shows "30 \<le> \<lfloor>fl (fl (r * 61) + 30)\<rfloor> \<and> \<lfloor>fl (fl (r * 61) + 30)\<rfloor> \<le> 91"
proof -
  have "0 \<le> fl (r * 61)"
    using assms by (intro fl_nonneg) simp
  moreover have "fl (r * 61) \<le> 61"
    using fl_mono [of "r * 61" 61] assms by (simp add: fl_consts)
  ultimately have s: "30 \<le> fl (r * 61) + 30" "fl (r * 61) + 30 \<le> 91"
    by simp_all
  have "30 \<le> fl (fl (r * 61) + 30)"
    using fl_mono [of 30 "fl (r * 61) + 30"] s by (simp add: fl_consts)
  then have lo: "30 \<le> \<lfloor>fl (fl (r * 61) + 30)\<rfloor>"
    by (simp add: le_floor_iff)
  have "fl (fl (r * 61) + 30) \<le> 91"
    using fl_mono [of "fl (r * 61) + 30" 91] s by (simp add: fl_consts)
  then have "\<lfloor>fl (fl (r * 61) + 30)\<rfloor> \<le> \<lfloor>91 :: real\<rfloor>"
    by (rule floor_mono)
  with lo show ?thesis by simp
qed

lemma long_break_factor:
  fixes r :: real
  assumes "0 \<le> r" "r < 1"
  shows "3 / 2 \<le> fl (fl (3 / 2 + r))" "fl (fl (3 / 2 + r)) \<le> 5 / 2"
proof -
  have a: "3 / 2 \<le> fl (3 / 2 + r)"
    using fl_mono [of "3 / 2" "3 / 2 + r"] assms by (simp add: fl_consts)
  have b: "fl (3 / 2 + r) \<le> 5 / 2"
    using fl_mono [of "3 / 2 + r" "5 / 2"] assms by (simp add: fl_consts)
  show "3 / 2 \<le> fl (fl (3 / 2 + r))"
    using fl_mono [of "3 / 2" "fl (3 / 2 + r)"] a by (simp add: fl_consts)
  show "fl (fl (3 / 2 + r)) \<le> 5 / 2"
    using fl_mono [of "fl (3 / 2 + r)" "5 / 2"] b by (simp add: fl_consts)
qed

lemma scaled_delay_bounds:
  fixes m :: real and b :: int
  assumes "30 \<le> b" "b \<le> 91" "6305039478318694 / 2 ^ 53 \<le> m" "m \<le> 5 / 2"
  shows "21 \<le> \<lfloor>fl (real_of_int b * m)\<rfloor> \<and> \<lfloor>fl (real_of_int b * m)\<rfloor> \<le> 227"
proof -
  have b: "(30::real) \<le> real_of_int b" "real_of_int b \<le> 91" using assms by simp_all
  have m0: "0 \<le> m" using assms(3) by simp
  have "30 * (6305039478318694 / 2 ^ 53) \<le> real_of_int b * m"
    using b assms(3) by (intro mult_mono) simp_all
  moreover have "0 \<le> real_of_int b * m" using b m0 by simp
  ultimately have "fl (30 * (6305039478318694 / 2 ^ 53)) \<le> fl (real_of_int b * m)"
    by (rule fl_mono)
  then have "21 \<le> fl (real_of_int b * m)" by (simp only: fl_30_07)
  then have lo: "21 \<le> \<lfloor>fl (real_of_int b * m)\<rfloor>" by (simp add: le_floor_iff)
  have "real_of_int b * m \<le> 91 * (5 / 2)"
    using b assms(4) m0 by (intro mult_mono) simp_all
  then have "fl (real_of_int b * m) \<le> fl (455 / 2)"
    by (intro fl_mono) simp_all
  then have "fl (real_of_int b * m) \<le> 455 / 2" by (simp only: fl_consts)
  then have "\<lfloor>fl (real_of_int b * m)\<rfloor> \<le> \<lfloor>455 / 2 :: real\<rfloor>" by (rule floor_mono)
  with lo show ?thesis by simp
qed

lemma delay_ms_bounds:
  fixes x :: int
  assumes "21 \<le> x \<and> x \<le> 227"
  shows "\<exists>d. Some (x * 1000) = Some d \<and> 21 * 1000 \<le> d \<and> d \<le> 227 * 1000"
  using assms by simp

text \<open>The delay when there is no consecutive failure, the hour is outside 1 to 4 and
  the progress of the day, as the source computes and compares it, is not above 0.7.\<close>

lemma getSmartDelay_plain:
  assumes "consecutiveFailures st = 0"
    and "\<not> (getHours (now w) \<ge> 1 \<and> getHours (now w) \<le> 4)"
    and "0 < dailyLimit st"
    and "\<not> fl (real_of_int (addedToday st) / real_of_int (dailyLimit st)) > fl (7 / 10)"
  shows "fst (getSmartDelay st w) =
     Some (\<lfloor>fl (real_of_int \<lfloor>fl (fl (rnd w (rnd_ix w) * real_of_int (maxDelay st - minDelay st + 1))
                                  + real_of_int (minDelay st))\<rfloor> *
            (if patternVariation st \<and> rnd w (Suc (rnd_ix w)) < fl (15 / 100)
             then (if rnd w (Suc (Suc (rnd_ix w))) < fl (7 / 10)
                   then fl (fl (3 / 2 + rnd w (Suc (Suc (Suc (rnd_ix w))))))
                   else fl (fl (7 / 10)))
             else 1))\<rfloor> * 1000)"
proof -
  from assms(2) consider "getHours (now w) = 0" | "4 < getHours (now w)"
    by fastforce
  then show ?thesis
  proof cases
    case 1
    then show ?thesis
      using assms(1,3,4)
      by (simp add: getSmartDelay_def next_random_def Let_def split_def)
  next
    case 2
    then show ?thesis
      using assms(1,3,4)
      by (simp add: getSmartDelay_def next_random_def Let_def split_def)
  qed
qed

text \<open>
  C8, as amended. With \<^verbatim>\<open>minDelay\<close> 30, \<^verbatim>\<open>maxDelay\<close> 90, no consecutive failure,
  an hour outside 1 to 4 and \<^verbatim>\<open>addedToday / dailyLimit\<close> not above 0.7, every delay that
  \<^verbatim>\<open>getSmartDelay\<close> can return, whatever the random source draws in \<open>[0, 1)\<close>, is at
  least 21 seconds and at most 227 seconds, in the double-precision arithmetic of the
  source.
\<close>

theorem C8_delay_bounds:
  assumes cfg: "minDelay st = 30" "maxDelay st = 90" "consecutiveFailures st = 0"
    and hour: "\<not> (getHours (now w) \<ge> 1 \<and> getHours (now w) \<le> 4)"
    and progress: "0 < dailyLimit st"
      "\<not> fl (real_of_int (addedToday st) / real_of_int (dailyLimit st)) > fl (7 / 10)"
    and draws: "\<forall>n. 0 \<le> rnd w n \<and> rnd w n < 1"
  shows "\<exists>d. fst (getSmartDelay st w) = Some d \<and> 21 * 1000 \<le> d \<and> d \<le> 227 * 1000"
proof -
  let ?i = "rnd_ix w"
  define b where "b = \<lfloor>fl (fl (rnd w ?i * real_of_int (maxDelay st - minDelay st + 1))
                            + real_of_int (minDelay st))\<rfloor>"
  define m where "m = (if patternVariation st \<and> rnd w (Suc ?i) < fl (15 / 100)
             then (if rnd w (Suc (Suc ?i)) < fl (7 / 10)
                   then fl (fl (3 / 2 + rnd w (Suc (Suc (Suc ?i)))))
                   else fl (fl (7 / 10)))
             else (1::real))"
  have "b = \<lfloor>fl (fl (rnd w ?i * 61) + 30)\<rfloor>"
    by (simp add: b_def cfg)
  moreover have "30 \<le> \<lfloor>fl (fl (rnd w ?i * 61) + 30)\<rfloor> \<and> \<lfloor>fl (fl (rnd w ?i * 61) + 30)\<rfloor> \<le> 91"
    using draws by (intro base_delay_bounds) simp_all
  ultimately have b: "30 \<le> b" "b \<le> 91" by simp_all
  have r4: "0 \<le> rnd w (Suc (Suc (Suc ?i)))" "rnd w (Suc (Suc (Suc ?i))) < 1"
    using draws by simp_all
  have short: "fl (fl (7 / 10)) = 6305039478318694 / 2 ^ 53"
    by (simp only: fl_07 fl_07_exact)
  have m: "6305039478318694 / 2 ^ 53 \<le> m" "m \<le> 5 / 2"
    using long_break_factor [OF r4] by (simp_all add: m_def short)
  have eq: "fst (getSmartDelay st w) = Some (\<lfloor>fl (real_of_int b * m)\<rfloor> * 1000)"
    unfolding b_def m_def by (rule getSmartDelay_plain [OF cfg(3) hour progress])
  show ?thesis
    unfolding eq by (rule delay_ms_bounds [OF scaled_delay_bounds [OF b m]])
qed

theorem C8_delay_bounds_witness:
  "\<exists>d. fst (getSmartDelay (default_stats 0) ((calm_world 36000000)\<lparr>rnd := long_break_draws\<rparr>)) = Some d
       \<and> 21 * 1000 \<le> d \<and> d \<le> 227 * 1000"
  by (rule C8_delay_bounds)
     (simp_all add: default_stats_def calm_world_def long_break_draws_def getHours_def fl_07)

text \<open>The delay at given draws that take a pattern break: the longer one, and the
  shorter one.\<close>

lemma long_break_delay:
  assumes "minDelay st = 30" "maxDelay st = 90" "consecutiveFailures st = 0" "patternVariation st"
    and "\<not> (getHours (now w) \<ge> 1 \<and> getHours (now w) \<le> 4)"
    and "0 < dailyLimit st"
    and "\<not> fl (real_of_int (addedToday st) / real_of_int (dailyLimit st)) > fl (7 / 10)"
    and "rnd w (rnd_ix w) = r1" "rnd w (Suc (rnd_ix w)) = r2"
      "rnd w (Suc (Suc (rnd_ix w))) = r3" "rnd w (Suc (Suc (Suc (rnd_ix w)))) = r4"
    and "r2 < fl (15 / 100)" "r3 < fl (7 / 10)"
    and "\<lfloor>fl (fl (r1 * 61) + 30)\<rfloor> = b"
    and "fl (fl (3 / 2 + r4)) = m"
    and "\<lfloor>fl (real_of_int b * m)\<rfloor> = d"
  shows "fst (getSmartDelay st w) = Some (d * 1000)"
  unfolding getSmartDelay_plain [OF assms(3,5,6,7)] assms(1,2,8,9,10,11)
  using assms(4,12,13,14,15,16) by simp

lemma short_break_delay:
  assumes "minDelay st = 30" "maxDelay st = 90" "consecutiveFailures st = 0" "patternVariation st"
    and "\<not> (getHours (now w) \<ge> 1 \<and> getHours (now w) \<le> 4)"
    and "0 < dailyLimit st"
    and "\<not> fl (real_of_int (addedToday st) / real_of_int (dailyLimit st)) > fl (7 / 10)"
    and "rnd w (rnd_ix w) = r1" "rnd w (Suc (rnd_ix w)) = r2"
      "rnd w (Suc (Suc (rnd_ix w))) = r3"
    and "r2 < fl (15 / 100)" "\<not> r3 < fl (7 / 10)"
    and "\<lfloor>fl (fl (r1 * 61) + 30)\<rfloor> = b"
    and "\<lfloor>fl (real_of_int b * fl (fl (7 / 10)))\<rfloor> = d"
  shows "fst (getSmartDelay st w) = Some (d * 1000)"
  unfolding getSmartDelay_plain [OF assms(3,5,6,7)] assms(1,2,8,9,10)
  using assms(4,11,12,13,14) by simp

lemma fl_exactI:
  assumes "x = of_int m * 2 powi j" "0 < m" "m < 2 ^ 53" "- 1074 \<le> j"
  shows "fl x = x"
  unfolding assms(1) by (rule fl_exact [OF assms(2,3,4)])

text \<open>The computation at three sequences of draws, step by step.\<close>

lemma long_break_steps:
  "\<lfloor>fl (fl (63 / 64 * 61) + 30)\<rfloor> = 90"
  "fl (fl (3 / 2 + 3 / 4)) = 9 / 4"
  "\<lfloor>fl (real_of_int 90 * (9 / 4))\<rfloor> = 202"
proof -
  have a: "fl (63 / 64 * 61) = 63 / 64 * 61"
    by (rule fl_exactI [where m = 3843 and j = "-6"]) simp_all
  have b: "fl (63 / 64 * 61 + 30) = 63 / 64 * 61 + 30"
    by (rule fl_exactI [where m = 5763 and j = "-6"]) simp_all
  show "\<lfloor>fl (fl (63 / 64 * 61) + 30)\<rfloor> = 90"
    by (simp only: a b) simp
  have c: "fl (3 / 2 + 3 / 4) = 9 / 4"
    by (subst fl_exactI [where m = 9 and j = "-2"]) simp_all
  have d: "fl (9 / 4) = 9 / 4"
    by (rule fl_exactI [where m = 9 and j = "-2"]) simp_all
  show "fl (fl (3 / 2 + 3 / 4)) = 9 / 4"
    by (simp only: c d)
  have e: "fl (real_of_int 90 * (9 / 4)) = real_of_int 90 * (9 / 4)"
    by (rule fl_exactI [where m = 405 and j = "-1"]) simp_all
  show "\<lfloor>fl (real_of_int 90 * (9 / 4))\<rfloor> = 202"
    by (simp only: e) simp
qed

lemma short_break_steps:
  "\<lfloor>fl (fl (0 * 61) + 30)\<rfloor> = 30"
  "\<lfloor>fl (real_of_int 30 * fl (fl (7 / 10)))\<rfloor> = 21"
proof -
  have a: "fl (fl (0 * 61) + 30) = 30"
    by (simp add: fl_consts)
  show "\<lfloor>fl (fl (0 * 61) + 30)\<rfloor> = 30"
    by (simp only: a) simp
  have b: "fl (fl (7 / 10)) = 6305039478318694 / 2 ^ 53"
    by (simp only: fl_07 fl_07_exact)
  have c: "real_of_int 30 * (6305039478318694 / 2 ^ 53) = 30 * (6305039478318694 / 2 ^ 53)"
    by simp
  show "\<lfloor>fl (real_of_int 30 * fl (fl (7 / 10)))\<rfloor> = 21"
    by (simp only: b c fl_30_07) simp
qed

lemma largest_steps:
  "\<lfloor>fl (fl ((1 - 1 / 2 ^ 53) * 61) + 30)\<rfloor> = 91"
  "fl (fl (3 / 2 + (1 - 1 / 2 ^ 53))) = 5 / 2"
  "\<lfloor>fl (real_of_int 91 * (5 / 2))\<rfloor> = 227"
proof -
  have a: "fl ((1 - 1 / 2 ^ 53) * 61) = 61 - 1 / 2 ^ 47"
    by (subst fl_eval [where e = 5 and u = "-47"]) (simp_all add: rne_def)
  have b: "fl (61 - 1 / 2 ^ 47 + 30) = 91"
    by (subst fl_eval [where e = 6 and u = "-46"]) (simp_all add: rne_def)
  show "\<lfloor>fl (fl ((1 - 1 / 2 ^ 53) * 61) + 30)\<rfloor> = 91"
    by (simp only: a b) simp
  have c: "fl (3 / 2 + (1 - 1 / 2 ^ 53)) = 5 / 2"
    by (subst fl_eval [where e = 1 and u = "-51"]) (simp_all add: rne_def)
  show "fl (fl (3 / 2 + (1 - 1 / 2 ^ 53))) = 5 / 2"
    by (simp only: c fl_consts)
  have d: "fl (real_of_int 91 * (5 / 2)) = real_of_int 91 * (5 / 2)"
    by (rule fl_exactI [where m = 455 and j = "-1"]) simp_all
  show "\<lfloor>fl (real_of_int 91 * (5 / 2))\<rfloor> = 227"
    by (simp only: d) simp
qed

lemma near_one_steps:
  "\<lfloor>fl (fl ((1 - 1 / 2 ^ 52) * 61) + 30)\<rfloor> = 90"
  "fl (fl (3 / 2 + (1 - 1 / 2 ^ 52))) = 5 / 2"
  "\<lfloor>fl (real_of_int 90 * (5 / 2))\<rfloor> = 225"
proof -
  have a: "fl ((1 - 1 / 2 ^ 52) * 61) = 61 - 1 / 2 ^ 46"
    by (subst fl_eval [where e = 5 and u = "-47"]) (simp_all add: rne_def)
  have b: "fl (61 - 1 / 2 ^ 46 + 30) = 91 - 1 / 2 ^ 46"
    by (subst fl_eval [where e = 6 and u = "-46"]) (simp_all add: rne_def)
  show "\<lfloor>fl (fl ((1 - 1 / 2 ^ 52) * 61) + 30)\<rfloor> = 90"
    by (simp only: a b) simp
  have c: "fl (3 / 2 + (1 - 1 / 2 ^ 52)) = 5 / 2"
    by (subst fl_eval [where e = 1 and u = "-51"]) (simp_all add: rne_def)
  show "fl (fl (3 / 2 + (1 - 1 / 2 ^ 52))) = 5 / 2"
    by (simp only: c fl_consts)
  have d: "fl (real_of_int 90 * (5 / 2)) = real_of_int 90 * (5 / 2)"
    by (rule fl_exactI [where m = 225 and j = 0]) simp_all
  show "\<lfloor>fl (real_of_int 90 * (5 / 2))\<rfloor> = 225"
    by (simp only: d) simp
qed

lemma pattern_draws: "1 / 8 < fl (15 / 100)" "1 / 2 < fl (7 / 10)" "\<not> 3 / 4 < fl (7 / 10)"
  using fl_015_bounds fl_07_bounds by simp_all

text \<open>
  C8, as stated, fails: a pattern break multiplies the base delay by up to 2.5, so the
  delay is not bounded by about 118 seconds, and the shorter break takes it below 30.
  With the default configuration at hour 10, the draws 63/64, 1/8, 1/2, 3/4 give
  202 seconds and the draws 0, 1/8, 3/4 give 21 seconds. When the first and the fourth
  draw are \<open>1 - 2\<^sup>-\<^sup>5\<^sup>2\<close> the sum \<open>1.5 + r\<close> rounds to 2.5 and the delay is
  225 seconds; when they are the largest double below 1 the base delay rounds to 91 as
  well and the delay is 227 seconds.
\<close>

theorem C8_delay_counterexample:
  "minDelay (default_stats 0) = 30 \<and> maxDelay (default_stats 0) = 90
   \<and> consecutiveFailures (default_stats 0) = 0 \<and> patternVariation (default_stats 0)
   \<and> addedToday (default_stats 0) = 0 \<and> dailyLimit (default_stats 0) = 20000
   \<and> getHours (now (calm_world 36000000)) = 10
   \<and> fst (getSmartDelay (default_stats 0) ((calm_world 36000000)\<lparr>rnd := long_break_draws\<rparr>))
       = Some (202 * 1000)
   \<and> fst (getSmartDelay (default_stats 0) ((calm_world 36000000)\<lparr>rnd := short_break_draws\<rparr>))
       = Some (21 * 1000)
   \<and> fst (getSmartDelay (default_stats 0) ((calm_world 36000000)\<lparr>rnd := near_one_draws\<rparr>))
       = Some (225 * 1000)
   \<and> fst (getSmartDelay (default_stats 0) ((calm_world 36000000)\<lparr>rnd := largest_draws\<rparr>))
       = Some (227 * 1000)"
proof -
  have c: "minDelay (default_stats 0) = 30" "maxDelay (default_stats 0) = 90"
    "consecutiveFailures (default_stats 0) = 0" "patternVariation (default_stats 0)"
    by (simp_all add: default_stats_def)
  have p: "0 < dailyLimit (default_stats 0)"
    "\<not> fl (real_of_int (addedToday (default_stats 0)) / real_of_int (dailyLimit (default_stats 0)))
         > fl (7 / 10)"
    by (simp_all add: default_stats_def fl_07)
  have h: "\<not> (getHours (now ((calm_world 36000000)\<lparr>rnd := d\<rparr>)) \<ge> 1
           \<and> getHours (now ((calm_world 36000000)\<lparr>rnd := d\<rparr>)) \<le> 4)" for d
    by (simp add: calm_world_def getHours_def)
  have 1: "fst (getSmartDelay (default_stats 0) ((calm_world 36000000)\<lparr>rnd := long_break_draws\<rparr>))
       = Some (202 * 1000)"
    by (rule long_break_delay [OF c h p _ _ _ _ pattern_draws(1,2) long_break_steps])
       (simp_all add: calm_world_def long_break_draws_def)
  have 2: "fst (getSmartDelay (default_stats 0) ((calm_world 36000000)\<lparr>rnd := short_break_draws\<rparr>))
       = Some (21 * 1000)"
    by (rule short_break_delay [OF c h p _ _ _ pattern_draws(1,3) short_break_steps])
       (simp_all add: calm_world_def short_break_draws_def)
  have 3: "fst (getSmartDelay (default_stats 0) ((calm_world 36000000)\<lparr>rnd := largest_draws\<rparr>))
       = Some (227 * 1000)"
    by (rule long_break_delay [OF c h p _ _ _ _ pattern_draws(1,2) largest_steps])
       (simp_all add: calm_world_def largest_draws_def)
  have 4: "fst (getSmartDelay (default_stats 0) ((calm_world 36000000)\<lparr>rnd := near_one_draws\<rparr>))
       = Some (225 * 1000)"
    by (rule long_break_delay [OF c h p _ _ _ _ pattern_draws(1,2) near_one_steps])
       (simp_all add: calm_world_def near_one_draws_def)
  have 0: "minDelay (default_stats 0) = 30 \<and> maxDelay (default_stats 0) = 90
   \<and> consecutiveFailures (default_stats 0) = 0 \<and> patternVariation (default_stats 0)
   \<and> addedToday (default_stats 0) = 0 \<and> dailyLimit (default_stats 0) = 20000
   \<and> getHours (now (calm_world 36000000)) = 10"
    by (simp add: default_stats_def calm_world_def getHours_def)
  show ?thesis
    using 0 1 2 3 4 by blast
qed

text \<open>The delay in a world whose draws are all 1/2: the base delay is 60 seconds and
  there is no pattern break.\<close>

lemma getSmartDelay_world:
  "snd (getSmartDelay st w) =
     w\<lparr>rnd_ix := (if patternVariation st
                    then (if rnd w (Suc (rnd_ix w)) < fl (15 / 100)
                          then (if rnd w (Suc (Suc (rnd_ix w))) < fl (7 / 10)
                                then Suc (Suc (Suc (Suc (rnd_ix w))))
                                else Suc (Suc (Suc (rnd_ix w))))
                          else Suc (Suc (rnd_ix w)))
                    else Suc (rnd_ix w))\<rparr>"
  by (simp add: getSmartDelay_def next_random_def Let_def split_def)

lemma half_steps:
  "\<lfloor>fl (fl (1 / 2 * 61) + 30)\<rfloor> = 60" "\<not> 1 / 2 < fl (15 / 100)" "\<lfloor>fl (real_of_int 60 * 1)\<rfloor> = 60"
proof -
  have a: "fl (1 / 2 * 61) = 1 / 2 * 61"
    by (rule fl_exactI [where m = 61 and j = "-1"]) simp_all
  have b: "fl (1 / 2 * 61 + 30) = 1 / 2 * 61 + 30"
    by (rule fl_exactI [where m = 121 and j = "-1"]) simp_all
  show "\<lfloor>fl (fl (1 / 2 * 61) + 30)\<rfloor> = 60"
    by (simp only: a b) simp
  show "\<not> 1 / 2 < fl (15 / 100)"
    using fl_015_bounds(2) by simp
  have c: "fl (real_of_int 60 * 1) = real_of_int 60 * 1"
    by (rule fl_exactI [where m = 60 and j = 0]) simp_all
  show "\<lfloor>fl (real_of_int 60 * 1)\<rfloor> = 60"
    by (simp only: c) simp
qed

lemma getSmartDelay_half:
  assumes "minDelay st = 30" "maxDelay st = 90" "consecutiveFailures st = 0" "patternVariation st"
    and "\<not> (getHours (now w) \<ge> 1 \<and> getHours (now w) \<le> 4)"
    and "0 < dailyLimit st"
    and "real_of_int (addedToday st) / real_of_int (dailyLimit st) \<le> 7 / 10"
    and "rnd w (rnd_ix w) = 1 / 2" "rnd w (Suc (rnd_ix w)) = 1 / 2"
  shows "getSmartDelay st w = (Some 60000, w\<lparr>rnd_ix := Suc (Suc (rnd_ix w))\<rparr>)"
proof (rule prod_eqI)
  have p: "\<not> fl (real_of_int (addedToday st) / real_of_int (dailyLimit st)) > fl (7 / 10)"
    using fl_mono [OF assms(7)] by simp
  have "fst (getSmartDelay st w) = Some (60 * 1000)"
    unfolding getSmartDelay_plain [OF assms(3,5,6) p] assms(1,2,8,9)
    using half_steps by simp
  then show "fst (getSmartDelay st w) = fst (Some 60000, w\<lparr>rnd_ix := Suc (Suc (rnd_ix w))\<rparr>)"
    by simp
  show "snd (getSmartDelay st w) = snd (Some 60000, w\<lparr>rnd_ix := Suc (Suc (rnd_ix w))\<rparr>)"
    unfolding getSmartDelay_world assms(9) using assms(4) half_steps(2) by simp
qed

subsection \<open>Circuit breaker\<close>

text \<open>What \<^verbatim>\<open>checkCircuitBreaker\<close> does from a state that is not tripped, and from a
  tripped one with reset time \<open>t\<close>.\<close>

lemma checkCircuitBreaker_armed:
  assumes "\<not> circuitBreakerTripped st"
  shows "checkCircuitBreaker st w =
     (if consecutiveFailures st \<ge> failureThreshold st
      then (Inl logger_warning,
            st\<lparr>circuitBreakerTripped := True,
               circuitBreakerResetTime := Some (now w + circuitBreakerTimeout st * 1000)\<rparr>, w)
      else (Inr False, st, w))"
  using assms by (simp add: checkCircuitBreaker_def Let_def)

lemma checkCircuitBreaker_tripped:
  assumes "circuitBreakerTripped st" "circuitBreakerResetTime st = Some t"
  shows "checkCircuitBreaker st w =
     (if now w > t
      then (Inr False,
            st\<lparr>circuitBreakerTripped := False, circuitBreakerResetTime := None,
               consecutiveFailures := 0\<rparr>,
            saveSessionStats (st\<lparr>circuitBreakerTripped := False, circuitBreakerResetTime := None,
               consecutiveFailures := 0\<rparr>) w)
      else (Inr True, st, w))"
  using assms by (simp add: checkCircuitBreaker_def resetCircuitBreaker_def Let_def)

text \<open>
  C2. From a tripped state the check answers false exactly when now is past the reset
  time, and then clears the flag, the reset time and \<^verbatim>\<open>consecutiveFailures\<close> (lemma
  \<open>checkCircuitBreaker_tripped\<close>). From an armed state with
  \<^verbatim>\<open>consecutiveFailures >= failureThreshold\<close> it does not answer true: with the
  default threshold of 10 and \<^verbatim>\<open>consecutiveFailures\<close> 10, at time 5000, the check
  assigns the flag and the reset time (5000 plus 1800 seconds) and then throws; nothing is
  saved. A submission in that state is not answered with the protection message: its
  promise is rejected with the exception. The next check, from the state the first one
  left, answers true.
\<close>

theorem C2_armed_check_throws:
  "\<not> circuitBreakerTripped ((default_stats 0)\<lparr>consecutiveFailures := 10\<rparr>)
   \<and> failureThreshold ((default_stats 0)\<lparr>consecutiveFailures := 10\<rparr>) = 10
   \<and> checkCircuitBreaker ((default_stats 0)\<lparr>consecutiveFailures := 10\<rparr>) (calm_world 5000)
       = (Inl ''logger.warning is not a function'',
          (default_stats 0)\<lparr>consecutiveFailures := 10, circuitBreakerTripped := True,
             circuitBreakerResetTime := Some 1805000\<rparr>,
          calm_world 5000)
   \<and> stats_file (calm_world 5000) = None
   \<and> fst (addMembersToGroup ''1234567890-1234567890@g.us'' [Str ''919876543210''] []
            ((default_stats 0)\<lparr>consecutiveFailures := 10\<rparr>) (calm_world 5000))
       = Raised ''logger.warning is not a function''
   \<and> fst (checkCircuitBreaker
            ((default_stats 0)\<lparr>consecutiveFailures := 10, circuitBreakerTripped := True,
               circuitBreakerResetTime := Some 1805000\<rparr>) (calm_world 6000))
       = Inr True"
  by (simp add: model_defs)

subsection \<open>Admission\<close>

lemma traditional_not_newer: "traditional_format s \<Longrightarrow> \<not> newer_format s"
  by (auto simp: traditional_format_def newer_format_def split: list.splits)

lemma newer_format_iff:
  "newer_format s \<longleftrightarrow> (\<exists>ds. ds \<noteq> [] \<and> list_all is_digit ds \<and> s = ds @ ''@g.us'')"
proof
  assume "newer_format s"
  then have "takeWhile is_digit s \<noteq> []" "dropWhile is_digit s = ''@g.us''"
    by (simp_all add: newer_format_def Let_def)
  moreover have "list_all is_digit (takeWhile is_digit s)"
    by (simp add: list_all_iff) (meson set_takeWhileD)
  moreover have "s = takeWhile is_digit s @ dropWhile is_digit s" by simp
  ultimately show "\<exists>ds. ds \<noteq> [] \<and> list_all is_digit ds \<and> s = ds @ ''@g.us''"
    by metis
next
  assume "\<exists>ds. ds \<noteq> [] \<and> list_all is_digit ds \<and> s = ds @ ''@g.us''"
  then obtain ds where ds: "ds \<noteq> []" "list_all is_digit ds" "s = ds @ ''@g.us''" by blast
  have "\<not> is_digit CHR ''@''" by (simp add: is_digit_def)
  then have "takeWhile is_digit s = ds" "dropWhile is_digit s = ''@g.us''"
    using ds by (simp_all add: list_all_iff takeWhile_append2 dropWhile_append2)
  then show "newer_format s" using ds by (simp add: newer_format_def)
qed

text \<open>Both formats are accepted by \<^verbatim>\<open>isGroupId\<close> (they have no white space to
  trim), on which the dispatch to \<^verbatim>\<open>addMembersToGroup\<close> relies.\<close>

lemma trim_id:
  assumes "s \<noteq> []" "\<not> is_space (hd s)" "\<not> is_space (last s)"
  shows "trim s = s"
proof -
  have "dropWhile is_space s = s"
    using assms(1,2) by (cases s) simp_all
  moreover have "dropWhile is_space (rev s) = rev s"
    using assms(1,3) by (cases "rev s") (simp_all add: last_rev [symmetric] del: last_rev)
  ultimately show ?thesis
    by (simp add: trim_def)
qed

lemma digit_not_space: "is_digit c \<Longrightarrow> \<not> is_space c"
  by (auto simp: is_digit_def is_space_def)

lemma newer_format_trim:
  assumes "newer_format s"
  shows "s \<noteq> [] \<and> trim s = s"
proof -
  obtain ds where ds: "ds \<noteq> []" "list_all is_digit ds" "s = ds @ ''@g.us''"
    using assms newer_format_iff by blast
  have "is_digit (hd s)"
    using ds by (cases ds) simp_all
  then have "\<not> is_space (hd s)"
    by (rule digit_not_space)
  moreover have "\<not> is_space (last s)"
    using ds by (simp add: is_space_def)
  moreover have "s \<noteq> []" using ds by simp
  ultimately show ?thesis
    by (simp add: trim_id)
qed

lemma traditional_format_trim:
  assumes "traditional_format s"
  shows "s \<noteq> [] \<and> trim s = s"
proof -
  obtain rest where r: "takeWhile is_digit s \<noteq> []" "dropWhile is_digit s = CHR ''-'' # rest"
    "newer_format rest"
    using assms by (auto simp: traditional_format_def Let_def split: list.splits)
  have s: "s = takeWhile is_digit s @ CHR ''-'' # rest"
    using r(2) takeWhile_dropWhile_id [of is_digit s] by simp
  have ne: "s \<noteq> []" using r(1) by auto
  have "hd s = hd (takeWhile is_digit s)"
    using r(1) by (metis hd_append2 takeWhile_dropWhile_id)
  moreover have "is_digit (hd (takeWhile is_digit s))"
    using r(1) by (meson hd_in_set set_takeWhileD)
  ultimately have h: "\<not> is_space (hd s)"
    by (simp add: digit_not_space)
  have "rest \<noteq> []" "\<not> is_space (last rest)"
    using newer_format_trim [OF r(3)] r(3)
    by (auto simp: newer_format_iff is_space_def)
  then have "\<not> is_space (last s)"
    by (subst s) simp
  then show ?thesis
    using ne h by (simp add: trim_id)
qed

lemma isGroupId_formats:
  "traditional_format s \<or> newer_format s \<Longrightarrow> isGroupId s"
  using newer_format_trim [of s] traditional_format_trim [of s]
  by (auto simp: isGroupId_def)

lemma isGroupId_examples:
  "isGroupId ''1234567890-1234567890@g.us''"
  "isGroupId ''120363413164388361@g.us''"
  "\<not> isGroupId ''https://chat.whatsapp.com/AbCdEf''"
  by (simp_all add: isGroupId_def trim_def is_space_def traditional_format_def newer_format_def
      is_digit_def)

text \<open>A submission that passes the admission checks, the verification call failing:
  with an identifier of the newer format the promise is rejected, with one of the
  traditional format the call returns the rejection for an invalid group. In both cases
  \<^verbatim>\<open>consecutiveFailures\<close> is incremented, nothing else of the state or the world has
  changed but the clock, and no item was looked at.\<close>

lemma failed_verification:
  assumes "pre_checks st w = (None, st1, w1)"
    and "verify_result w1 = VerifyFailed"
  shows "newer_format groupId \<Longrightarrow>
            addMembersToGroup groupId numbers msg st w =
              (Raised logger_warning,
               st1\<lparr>consecutiveFailures := consecutiveFailures st1 + 1\<rparr>,
               w1\<lparr>now := now w1 + verify_ms w1\<rparr>)"
    and "traditional_format groupId \<Longrightarrow>
            addMembersToGroup groupId numbers msg st w =
              (Rejected InvalidGroup,
               st1\<lparr>consecutiveFailures := consecutiveFailures st1 + 1\<rparr>,
               w1\<lparr>now := now w1 + verify_ms w1\<rparr>)"
  using assms traditional_not_newer [of groupId]
  by (auto simp: addMembersToGroup_def admit_def verify_group_def Let_def)

text \<open>
  C6. For an identifier of the traditional format a failed verification increments
  \<^verbatim>\<open>consecutiveFailures\<close> and the submission is rejected as an invalid group (lemma
  \<open>failed_verification\<close>). For an identifier of the newer format the submission does
  not proceed to processing: with the state as the storage service creates it, one number
  submitted for \<^verbatim>\<open>120363413164388361@g.us\<close> and the verification call failing, the
  call does not go on to the batch. \<^verbatim>\<open>consecutiveFailures\<close> is incremented, and then the promise is
  rejected with the exception of \<^verbatim>\<open>logger.warning\<close>: no result is returned, no item
  is processed, \<^verbatim>\<open>isAddingMembers\<close> was never set and nothing was written. The same
  submission for \<^verbatim>\<open>1234567890-1234567890@g.us\<close> returns the rejection for an invalid
  group.
\<close>

theorem C6_newer_format_rejected:
  "newer_format ''120363413164388361@g.us''
   \<and> traditional_format ''1234567890-1234567890@g.us''
   \<and> addMembersToGroup ''120363413164388361@g.us'' [Str ''919876543210''] []
        (default_stats 0) ((calm_world 36000000)\<lparr>verify_result := VerifyFailed\<rparr>)
     = (Raised ''logger.warning is not a function'',
        (default_stats 0)\<lparr>consecutiveFailures := 1\<rparr>,
        (calm_world 36000000)\<lparr>verify_result := VerifyFailed, now := 36000100\<rparr>)
   \<and> addMembersToGroup ''1234567890-1234567890@g.us'' [Str ''919876543210''] []
        (default_stats 0) ((calm_world 36000000)\<lparr>verify_result := VerifyFailed\<rparr>)
     = (Rejected InvalidGroup,
        (default_stats 0)\<lparr>consecutiveFailures := 1\<rparr>,
        (calm_world 36000000)\<lparr>verify_result := VerifyFailed, now := 36000100\<rparr>)"
  by (simp add: traditional_format_def model_defs)

subsection \<open>The batch as a whole\<close>

text \<open>
  C5. A submission that passes admission sets \<^verbatim>\<open>isAddingMembers\<close>, and when
  \<^verbatim>\<open>addMembersToGroup\<close> returns the flag is false again and the status is ready,
  however the loop ended: when it ran to the end, when an iteration returned a partial
  result, and when an exception left the loop, which the outer \<^verbatim>\<open>catch\<close> turns into
  the partial result with \<^verbatim>\<open>success: false\<close>. The call returns in each case.
\<close>

theorem C5_release_on_all_paths:
  assumes "admit groupId st w = (None, st1, w1)"
  shows "isAddingMembers (start_batch groupId numbers st1)
     \<and> \<not> isAddingMembers (fst (snd (addMembersToGroup groupId numbers msg st w)))
     \<and> userStatus (fst (snd (addMembersToGroup groupId numbers msg st w))) = Ready
     \<and> (case batch_loop groupId numbers (currentBatchIndex (start_batch groupId numbers st1))
                (start_batch groupId numbers st1) w1 (initial_results numbers) of
           Continue st2 w2 res \<Rightarrow>
             fst (addMembersToGroup groupId numbers msg st w) = Finished res
         | Return st2 w2 res \<Rightarrow>
             fst (addMembersToGroup groupId numbers msg st w) = Finished res
         | Throw st2 w2 res e \<Rightarrow>
             fst (addMembersToGroup groupId numbers msg st w)
               = Finished (res\<lparr>success := False, message := Some (UnexpectedError e)\<rparr>))"
  using assms
  by (simp add: addMembersToGroup_def run_batch_def start_batch_def finally_block_def
      Let_def split_def split: step.splits)

lemma admit_default:
  "admit ''120363413164388361@g.us'' (default_stats 0) (calm_world 36000000)
     = (None, default_stats 0, (calm_world 36000000)\<lparr>now := 36000100\<rparr>)"
  by (simp add: admit_def pre_checks_def verify_group_def default_stats_def calm_world_def
      toDateString_def checkCircuitBreaker_def checkHourlyLimit_def getHours_def
      newer_format_def is_digit_def)

theorem C5_release_on_all_paths_witness:
  "\<not> isAddingMembers (fst (snd (addMembersToGroup ''120363413164388361@g.us'' [Num 5] []
        (default_stats 0) (calm_world 36000000))))
   \<and> fst (addMembersToGroup ''120363413164388361@g.us'' [Num 5] []
        (default_stats 0) (calm_world 36000000))
     = Finished \<lparr>success = False, added = 0, failed = 0, skipped = 0, details = [],
         batch_total = 1, batch_processed = 0, batch_remaining = 1,
         message = Some (UnexpectedError ''number.replace is not a function'')\<rparr>"
  using C5_release_on_all_paths [OF admit_default, of "[Num 5]" "[]"]
  by (simp add: batch_loop.simps model_defs)

subsection \<open>After a failed item\<close>

lemma saveSessionStats_frame [simp]:
  "now (saveSessionStats st w) = now w"
  "rnd (saveSessionStats st w) = rnd w"
  "rnd_ix (saveSessionStats st w) = rnd_ix w"
  "verify_result (saveSessionStats st w) = verify_result w"
  "verify_ms (saveSessionStats st w) = verify_ms w"
  "add_result (saveSessionStats st w) = add_result w"
  "add_ms (saveSessionStats st w) = add_ms w"
  "sleeps (saveSessionStats st w) = sleeps w"
  "outbox (saveSessionStats st w) = outbox w"
  by (simp_all add: saveSessionStats_def Let_def)

lemma sleeps_after_item [simp]: "sleeps (step_world (after_item st w res)) = sleeps w"
  by (simp add: after_item_def checkCircuitBreaker_def resetCircuitBreaker_def Let_def)

text \<open>The \<^verbatim>\<open>catch\<close> block of an item that is a string: what it leaves when the
  error text is ban-indicative, and what it does when it is not.\<close>

lemma on_failure_ban:
  assumes "numbers ! i = Str s"
    and "e = (if msg = [] then ''Unknown error'' else msg)"
    and "isBanRelated e"
    and "f = (case validatePhoneNumber s of Valid formatted \<Rightarrow> formatted
                                          | Invalid reason \<Rightarrow> s @ ''@c.us'')"
    and "st2 = st\<lparr>consecutiveFailures := consecutiveFailures st + 1,
                  failedNumbers := upsert_failure f e (now w) (failedNumbers st)\<rparr>"
  shows "on_failure numbers i msg st w res =
     Throw st2 (saveSessionStats st2 w)
       (res\<lparr>details := details res @ [\<lparr>d_number = numbers ! i, d_status = Failed, d_reason = e\<rparr>],
            failed := failed res + 1\<rparr>)
       logger_warning"
  using assms(1,3) unfolding assms(2,4,5)
  by (simp add: on_failure_def updateFailedNumber_def Let_def split_def)

lemma on_failure_continue:
  assumes "numbers ! i = Str s"
    and "e = (if msg = [] then ''Unknown error'' else msg)"
    and "\<not> isBanRelated e"
    and "f = (case validatePhoneNumber s of Valid formatted \<Rightarrow> formatted
                                          | Invalid reason \<Rightarrow> s @ ''@c.us'')"
    and "st2 = st\<lparr>consecutiveFailures := consecutiveFailures st + 1,
                  failedNumbers := upsert_failure f e (now w) (failedNumbers st)\<rparr>"
  shows "on_failure numbers i msg st w res =
     after_item st2 (failure_backoff st2 (saveSessionStats st2 w))
       (res\<lparr>details := details res @ [\<lparr>d_number = numbers ! i, d_status = Failed, d_reason = e\<rparr>],
            failed := failed res + 1\<rparr>)"
  using assms(1,3) unfolding assms(2,4,5)
  by (simp add: on_failure_def updateFailedNumber_def Let_def split_def)

lemma on_failure_throw:
  "numbers ! i = Num n \<Longrightarrow>
   on_failure numbers i msg st w res =
     Throw (st\<lparr>consecutiveFailures := consecutiveFailures st + 1\<rparr>) w res not_a_function"
  by (simp add: on_failure_def Let_def)

text \<open>The timers awaited by the \<^verbatim>\<open>catch\<close> block: none when the error text is
  ban-indicative (the block is left by the exception of line 729, and the breaker is as
  it was), and otherwise the pause of \<open>min (60 + 30 consecutiveFailures) 300\<close>
  seconds.\<close>

lemma failure_sleeps:
  assumes "numbers ! i = Str s"
  shows "sleeps (step_world (on_failure numbers i msg st w res)) =
      sleeps w
      @ (if isBanRelated (if msg = [] then ''Unknown error'' else msg)
         then []
         else [(FailureBackoff,
                Some (real_of_int (min (60 + (consecutiveFailures st + 1) * 30) 300 * 1000)))])"
    and "isBanRelated (if msg = [] then ''Unknown error'' else msg) \<Longrightarrow>
      throws (on_failure numbers i msg st w res)
      \<and> circuitBreakerTripped (step_state (on_failure numbers i msg st w res))
          = circuitBreakerTripped st
      \<and> circuitBreakerResetTime (step_state (on_failure numbers i msg st w res))
          = circuitBreakerResetTime st"
  using assms
  by (simp_all add: on_failure_def updateFailedNumber_def sleep_def failure_backoff_def
      Let_def split_def)

text \<open>
  C7. After a failure whose error text is not ban-indicative the processor sleeps
  \<open>min (60 + 30 consecutiveFailures) 300\<close> seconds and goes on (lemma
  \<open>failure_sleeps\<close>): one number refused with \<^verbatim>\<open>Number not registered on WhatsApp\<close>
  is followed by the pause of 90 seconds, and the batch completes. After a failure whose
  error text is ban-indicative it does not sleep the extended cooldown and does not go
  on: one number refused with \<^verbatim>\<open>forbidden\<close> is followed by no pause at all. The failure is recorded, the exception of
  \<^verbatim>\<open>logger.warning\<close> leaves the loop, and the call returns the partial result with
  \<^verbatim>\<open>success: false\<close> and the message for an unexpected error.
\<close>

theorem C7_ban_failure_no_sleep:
  "isBanRelated ''forbidden'' \<and> \<not> isBanRelated ''Number not registered on WhatsApp''
   \<and> fst (addMembersToGroup ''1234567890-1234567890@g.us'' [Str ''919876543210''] []
        (default_stats 0) (refusing_world 36000000))
     = Finished \<lparr>success = False, added = 0, failed = 1, skipped = 0,
         details = [\<lparr>d_number = Str ''919876543210'', d_status = Failed, d_reason = ''forbidden''\<rparr>],
         batch_total = 1, batch_processed = 0, batch_remaining = 1,
         message = Some (UnexpectedError ''logger.warning is not a function'')\<rparr>
   \<and> sleeps (snd (snd (addMembersToGroup ''1234567890-1234567890@g.us'' [Str ''919876543210''] []
        (default_stats 0) (refusing_world 36000000))))
     = []
   \<and> fst (addMembersToGroup ''1234567890-1234567890@g.us'' [Str ''919876543210''] []
        (default_stats 0)
        ((calm_world 36000000)\<lparr>add_result := (\<lambda>i. AddThrew ''Number not registered on WhatsApp'')\<rparr>))
     = Finished \<lparr>success = True, added = 0, failed = 1, skipped = 0,
         details = [\<lparr>d_number = Str ''919876543210'', d_status = Failed,
                     d_reason = ''Number not registered on WhatsApp''\<rparr>],
         batch_total = 1, batch_processed = 0, batch_remaining = 1, message = None\<rparr>
   \<and> sleeps (snd (snd (addMembersToGroup ''1234567890-1234567890@g.us'' [Str ''919876543210''] []
        (default_stats 0)
        ((calm_world 36000000)\<lparr>add_result := (\<lambda>i. AddThrew ''Number not registered on WhatsApp'')\<rparr>))))
     = [(FailureBackoff, Some 90000)]"
  by (simp add: batch_loop.simps refusing_world_def model_defs)

subsection \<open>Ban-indicative failures and the breaker\<close>

text \<open>
  C4. The source means to trip the breaker at the third consecutive failure when it is
  ban-indicative (lines 737 to 754), and does not get there. With
  \<^verbatim>\<open>consecutiveFailures\<close> 2 and four numbers, each add refused with \<^verbatim>\<open>forbidden\<close>:
  the first failure makes the counter 3, and the call returns with \<^verbatim>\<open>success: false\<close>
  and the remaining three numbers unprocessed, but with the message for an unexpected
  error; the breaker is not tripped and has no reset time, in memory and in the stats
  file, and the cursor in the batch file is 0, the index of the number that was attempted.
  From \<^verbatim>\<open>consecutiveFailures\<close> 0 the same four numbers end in the same way at the first
  failure: there is no second and no third one.
\<close>

theorem C4_ban_failure_no_trip:
  "isBanRelated ''forbidden''
   \<and> fst (addMembersToGroup ''1234567890-1234567890@g.us'' four_numbers []
        ((default_stats 0)\<lparr>consecutiveFailures := 2\<rparr>) (refusing_world 36000000))
     = Finished \<lparr>success = False, added = 0, failed = 1, skipped = 0,
         details = [\<lparr>d_number = Str ''919876543210'', d_status = Failed, d_reason = ''forbidden''\<rparr>],
         batch_total = 4, batch_processed = 0, batch_remaining = 4,
         message = Some (UnexpectedError ''logger.warning is not a function'')\<rparr>
   \<and> consecutiveFailures (fst (snd (addMembersToGroup ''1234567890-1234567890@g.us'' four_numbers []
        ((default_stats 0)\<lparr>consecutiveFailures := 2\<rparr>) (refusing_world 36000000)))) = 3
   \<and> \<not> circuitBreakerTripped (fst (snd (addMembersToGroup ''1234567890-1234567890@g.us'' four_numbers []
        ((default_stats 0)\<lparr>consecutiveFailures := 2\<rparr>) (refusing_world 36000000))))
   \<and> circuitBreakerResetTime (fst (snd (addMembersToGroup ''1234567890-1234567890@g.us'' four_numbers []
        ((default_stats 0)\<lparr>consecutiveFailures := 2\<rparr>) (refusing_world 36000000)))) = None
   \<and> stats_file (snd (snd (addMembersToGroup ''1234567890-1234567890@g.us'' four_numbers []
        ((default_stats 0)\<lparr>consecutiveFailures := 2\<rparr>) (refusing_world 36000000))))
     = Some \<lparr>s_addedToday = 0, s_lastDateReset = 0, s_hourlyAdditionCounts = replicate 24 0,
             s_circuitBreakerTripped = False, s_circuitBreakerResetTime = None\<rparr>
   \<and> batches_file (snd (snd (addMembersToGroup ''1234567890-1234567890@g.us'' four_numbers []
        ((default_stats 0)\<lparr>consecutiveFailures := 2\<rparr>) (refusing_world 36000000))))
     = Some \<lparr>b_currentBatch = four_numbers, b_currentBatchIndex = 0, b_lastGroupId = None\<rparr>
   \<and> sleeps (snd (snd (addMembersToGroup ''1234567890-1234567890@g.us'' four_numbers []
        ((default_stats 0)\<lparr>consecutiveFailures := 2\<rparr>) (refusing_world 36000000)))) = []
   \<and> fst (addMembersToGroup ''1234567890-1234567890@g.us'' four_numbers []
        (default_stats 0) (refusing_world 36000000))
     = Finished \<lparr>success = False, added = 0, failed = 1, skipped = 0,
         details = [\<lparr>d_number = Str ''919876543210'', d_status = Failed, d_reason = ''forbidden''\<rparr>],
         batch_total = 4, batch_processed = 0, batch_remaining = 4,
         message = Some (UnexpectedError ''logger.warning is not a function'')\<rparr>
   \<and> \<not> circuitBreakerTripped (fst (snd (addMembersToGroup ''1234567890-1234567890@g.us'' four_numbers []
        (default_stats 0) (refusing_world 36000000))))"
  by (simp add: batch_loop.simps four_numbers_def refusing_world_def model_defs)

subsection \<open>What the loop preserves\<close>

lemma begin_item_state:
  "begin_item numbers i st w res = (st1, w2, res1) \<Longrightarrow>
     st1 = st\<lparr>currentBatchIndex := i\<rparr> \<and> details res1 = details res"
  by (auto simp: begin_item_def Let_def)

lemma extends_refl: "extends g w w"
  by (simp add: extends_def)

lemma extends_trans: "extends g w w' \<Longrightarrow> extends g w' w'' \<Longrightarrow> extends g w w''"
  by (fastforce simp: extends_def)

lemma extends_same: "batch_writes w'' = batch_writes w' \<Longrightarrow> extends g w w' \<Longrightarrow> extends g w w''"
  by (simp add: extends_def)

lemma extends_save: "lastGroupId st = g \<Longrightarrow> extends g w w' \<Longrightarrow> extends g w (saveSessionStats st w')"
  by (auto simp: extends_def saveSessionStats_def Let_def)

lemma extends_sleep: "extends g w w' \<Longrightarrow> extends g w (sleep k d w')"
  by (simp add: extends_def sleep_def)

lemma extends_checkCircuitBreaker:
  "lastGroupId st = g \<Longrightarrow> extends g w w' \<Longrightarrow> extends g w (snd (snd (checkCircuitBreaker st w')))"
  by (auto simp: checkCircuitBreaker_def resetCircuitBreaker_def Let_def intro: extends_save)

lemma checkCircuitBreaker_frame [simp]:
  "lastGroupId (fst (snd (checkCircuitBreaker st w))) = lastGroupId st"
  "currentBatch (fst (snd (checkCircuitBreaker st w))) = currentBatch st"
  "currentBatchIndex (fst (snd (checkCircuitBreaker st w))) = currentBatchIndex st"
  "isAddingMembers (fst (snd (checkCircuitBreaker st w))) = isAddingMembers st"
  "dailyLimit (fst (snd (checkCircuitBreaker st w))) = dailyLimit st"
  "hourlyLimit (fst (snd (checkCircuitBreaker st w))) = hourlyLimit st"
  "failureThreshold (fst (snd (checkCircuitBreaker st w))) = failureThreshold st"
  "addedToday (fst (snd (checkCircuitBreaker st w))) = addedToday st"
  "hourlyAdditionCounts (fst (snd (checkCircuitBreaker st w))) = hourlyAdditionCounts st"
  by (simp_all add: checkCircuitBreaker_def resetCircuitBreaker_def Let_def)

lemma after_item_frame [simp]:
  "lastGroupId (step_state (after_item st w res)) = lastGroupId st"
  "currentBatch (step_state (after_item st w res)) = currentBatch st"
  "currentBatchIndex (step_state (after_item st w res)) = currentBatchIndex st"
  by (simp_all add: after_item_def split_def split: sum.splits bool.splits)

lemma extends_after_item:
  "lastGroupId st = g \<Longrightarrow> extends g w w' \<Longrightarrow> extends g w (step_world (after_item st w' res))"
  using extends_checkCircuitBreaker [of st g w w']
  by (auto simp: after_item_def split_def split: sum.splits bool.splits intro: extends_save)

lemma getSmartDelay_writes [simp]:
  "batch_writes (snd (getSmartDelay st w)) = batch_writes w"
  by (simp add: getSmartDelay_def next_random_def Let_def split_def)

lemma updateHourlyCount_frame [simp]:
  "lastGroupId (fst (updateHourlyCount st w)) = lastGroupId st"
  "currentBatch (fst (updateHourlyCount st w)) = currentBatch st"
  "currentBatchIndex (fst (updateHourlyCount st w)) = currentBatchIndex st"
  by (simp_all add: updateHourlyCount_def Let_def)

lemma extends_updateHourlyCount:
  "lastGroupId st = g \<Longrightarrow> extends g w w' \<Longrightarrow> extends g w (snd (updateHourlyCount st w'))"
  by (simp add: updateHourlyCount_def Let_def extends_save)

lemma updateFailedNumber_frame [simp]:
  "lastGroupId (fst (updateFailedNumber f e st w)) = lastGroupId st"
  "currentBatch (fst (updateFailedNumber f e st w)) = currentBatch st"
  "currentBatchIndex (fst (updateFailedNumber f e st w)) = currentBatchIndex st"
  by (simp_all add: updateFailedNumber_def Let_def)

lemma extends_updateFailedNumber:
  "lastGroupId st = g \<Longrightarrow> extends g w w' \<Longrightarrow> extends g w (snd (updateFailedNumber f e st w'))"
  by (simp add: updateFailedNumber_def Let_def extends_save)

lemma on_success_frame [simp]:
  "lastGroupId (step_state (on_success numbers i st w res)) = lastGroupId st"
  "currentBatch (step_state (on_success numbers i st w res)) = currentBatch st"
  "currentBatchIndex (step_state (on_success numbers i st w res)) = currentBatchIndex st"
  by (simp_all add: on_success_def Let_def split_def)

lemma on_success_eq:
  assumes "st1 = st\<lparr>addedToday := addedToday st + 1\<rparr>"
    and "st3 = (fst (updateHourlyCount st1 w))\<lparr>consecutiveFailures := 0\<rparr>"
    and "w3 = saveSessionStats st3 (snd (updateHourlyCount st1 w))"
    and "w4 = (if int i < int (length numbers) - 1
               then sleep SmartDelay (map_option real_of_int (fst (getSmartDelay st3 w3)))
                      (snd (getSmartDelay st3 w3))
               else w3)"
  shows "on_success numbers i st w res = after_item st3 w4
      (res\<lparr>added := added res + 1,
           details := details res @
             [\<lparr>d_number = numbers ! i, d_status = Added,
               d_reason = ''Successfully saved contact and added to group''\<rparr>]\<rparr>)"
  unfolding assms by (simp add: on_success_def Let_def split_def)

lemma failure_backoff_writes [simp]: "batch_writes (failure_backoff st w) = batch_writes w"
  by (simp add: failure_backoff_def sleep_def Let_def)

lemma after_item_results [simp]:
  "details (step_results (after_item st w res)) = details res"
  "tally (step_results (after_item st w res)) = tally res"
  by (simp_all add: after_item_def tally_def split_def split: sum.splits bool.splits)

lemma on_success_ok:
  assumes "extends (lastGroupId st) w0 w"
  shows "step_ok numbers i st w0 res (on_success numbers i st w res)"
proof -
  define st1 where "st1 = st\<lparr>addedToday := addedToday st + 1\<rparr>"
  define st3 where "st3 = (fst (updateHourlyCount st1 w))\<lparr>consecutiveFailures := 0\<rparr>"
  define w3 where "w3 = saveSessionStats st3 (snd (updateHourlyCount st1 w))"
  define w4 where "w4 = (if int i < int (length numbers) - 1
                then sleep SmartDelay (map_option real_of_int (fst (getSmartDelay st3 w3)))
                       (snd (getSmartDelay st3 w3))
                else w3)"
  have g: "lastGroupId st1 = lastGroupId st" "lastGroupId st3 = lastGroupId st"
    by (simp_all add: st1_def st3_def)
  have "extends (lastGroupId st) w0 w3"
    unfolding w3_def by (intro extends_save extends_updateHourlyCount g assms)
  then have "extends (lastGroupId st) w0 w4"
    unfolding w4_def
    by (auto intro: extends_sleep extends_same [OF getSmartDelay_writes])
  then have "extends (lastGroupId st) w0 (step_world (after_item st3 w4 x))" for x
    by (intro extends_after_item g)
  then show ?thesis
    by (simp add: on_success_eq [OF st1_def st3_def w3_def w4_def] step_ok_def)
       (simp add: st3_def st1_def tally_def)
qed

lemma on_failure_ok:
  assumes "extends (lastGroupId st) w0 w"
  shows "step_ok numbers i st w0 res (on_failure numbers i msg st w res)"
proof (cases "numbers ! i")
  case (Num n)
  show ?thesis
    using assms by (simp add: on_failure_throw [OF Num] step_ok_def)
next
  case (Str s)
  define e where "e = (if msg = [] then ''Unknown error'' else msg)"
  define f where "f = (case validatePhoneNumber s of Valid formatted \<Rightarrow> formatted
                                          | Invalid reason \<Rightarrow> s @ ''@c.us'')"
  define st2 where "st2 = st\<lparr>consecutiveFailures := consecutiveFailures st + 1,
                  failedNumbers := upsert_failure f e (now w) (failedNumbers st)\<rparr>"
  have g: "lastGroupId st2 = lastGroupId st" by (simp add: st2_def)
  have w2: "extends (lastGroupId st) w0 (saveSessionStats st2 w)"
    by (intro extends_save g assms)
  show ?thesis
  proof (cases "isBanRelated e")
    case True
    show ?thesis
      using w2
      by (simp add: on_failure_ban [OF Str e_def True f_def st2_def] step_ok_def st2_def)
  next
    case False
    have "extends (lastGroupId st) w0 (failure_backoff st2 (saveSessionStats st2 w))"
      by (rule extends_same [OF failure_backoff_writes w2])
    then have "extends (lastGroupId st) w0
        (step_world (after_item st2 (failure_backoff st2 (saveSessionStats st2 w)) x))" for x
      by (intro extends_after_item g)
    then show ?thesis
      by (simp add: on_failure_continue [OF Str e_def False f_def st2_def] step_ok_def)
         (simp add: st2_def tally_def Str)
  qed
qed

lemma saveContactThenAdd_writes [simp]:
  "batch_writes (snd (saveContactThenAdd n g i w)) = batch_writes w"
  by (simp add: saveContactThenAdd_def split: item.splits validation.splits)

lemma step_ok_results:
  "step_ok numbers i st w res1 S \<Longrightarrow> details res1 = details res \<Longrightarrow> tally res1 = tally res
   \<Longrightarrow> step_ok numbers i st w res S"
  by (simp add: step_ok_def)

lemma begin_item_ok:
  assumes "begin_item numbers i st w res = (st1, w2, res1)"
  shows "st1 = st\<lparr>currentBatchIndex := i\<rparr>" "extends (lastGroupId st) w w2"
    "details res1 = details res" "tally res1 = tally res"
proof -
  show st1: "st1 = st\<lparr>currentBatchIndex := i\<rparr>"
    using assms by (auto simp: begin_item_def Let_def)
  have "extends (lastGroupId st) w (saveSessionStats st1 w)"
    by (intro extends_save extends_refl) (simp add: st1)
  moreover have "w2 = saveSessionStats st1 w
      \<or> w2 = sleep BatchCooldown (Some (real_of_int (batchCooldown st1 * 1000))) (saveSessionStats st1 w)"
    using assms by (auto simp: begin_item_def Let_def)
  ultimately show "extends (lastGroupId st) w w2"
    by (auto intro: extends_sleep)
  show "details res1 = details res" "tally res1 = tally res"
    using assms by (auto simp: begin_item_def Let_def tally_def)
qed

lemma process_item_ok:
  "step_ok numbers i (st\<lparr>currentBatchIndex := i\<rparr>) w res (process_item groupId numbers i st w res)"
proof -
  obtain st1 w2 res1 where b: "begin_item numbers i st w res = (st1, w2, res1)"
    by (metis prod_cases3)
  note ok = begin_item_ok [OF b]
  have g: "lastGroupId st1 = lastGroupId st" using ok(1) by simp
  have e: "extends (lastGroupId st1) w w2" using ok(2) g by simp
  show ?thesis
  proof (cases "addedToday st1 \<ge> dailyLimit st1")
    case True
    then show ?thesis
      using b ok e by (simp add: process_item_def step_ok_def tally_def)
  next
    case daily: False
    show ?thesis
    proof (cases "checkHourlyLimit st1 w2")
      case True
      show ?thesis
        using b ok e daily True
        by (simp add: process_item_def step_ok_def tally_def Let_def)
    next
      case False
      obtain r w3 where a: "saveContactThenAdd (numbers ! i) groupId i w2 = (r, w3)"
        by (metis surj_pair)
      have "batch_writes w3 = batch_writes w2"
        using saveContactThenAdd_writes [of "numbers ! i" groupId i w2] a by simp
      then have e3: "extends (lastGroupId st1) w w3"
        using e by (rule extends_same)
      have "step_ok numbers i st1 w res1 (process_item groupId numbers i st w res)"
        using b daily False a on_success_ok [OF e3] on_failure_ok [OF e3]
        by (cases r) (simp_all add: process_item_def)
      then show ?thesis
        using ok by (simp add: step_ok_results)
    qed
  qed
qed

lemma take_drop_step:
  assumes "i < length xs" "Suc i \<le> j"
  shows "ys @ [xs ! i] @ take (j - Suc i) (drop (Suc i) xs) = ys @ take (j - i) (drop i xs)"
proof -
  have "drop i xs = xs ! i # drop (Suc i) xs"
    using assms(1) by (simp add: Cons_nth_drop_Suc)
  moreover have "j - i = Suc (j - Suc i)"
    using assms(2) by simp
  ultimately show ?thesis by simp
qed

lemma batch_loop_ok:
  "loop_ok numbers i st w res (batch_loop groupId numbers i st w res)"
proof (induction groupId numbers i st w res rule: batch_loop.induct)
  case (1 groupId numbers i st w res)
  show ?case
  proof (cases "i < length numbers")
    case False
    then show ?thesis
      by (subst batch_loop.simps) (simp add: loop_ok_def extends_refl)
  next
    case True
    define S where "S = process_item groupId numbers i st w res"
    have ok: "step_ok numbers i (st\<lparr>currentBatchIndex := i\<rparr>) w res S"
      unfolding S_def by (rule process_item_ok)
    have d: "drop i numbers = numbers ! i # drop (Suc i) numbers"
      using True by (simp add: Cons_nth_drop_Suc)
    show ?thesis
    proof (cases S)
      case (Continue st1 w1 res1)
      have L: "batch_loop groupId numbers i st w res = batch_loop groupId numbers (Suc i) st1 w1 res1"
        using True Continue S_def by (subst batch_loop.simps) simp
      have ih: "loop_ok numbers (Suc i) st1 w1 res1 (batch_loop groupId numbers (Suc i) st1 w1 res1)"
        using "1.IH" [OF True] Continue S_def by simp
      have s1: "lastGroupId st1 = lastGroupId st" "currentBatch st1 = currentBatch st"
        "currentBatchIndex st1 = i" "extends (lastGroupId st) w w1"
        "map d_number (details res1) = map d_number (details res) @ [numbers ! i]"
        "tally res1 = tally res + 1"
        using ok Continue by (simp_all add: step_ok_def)
      have e: "extends (lastGroupId st) w (step_world (batch_loop groupId numbers (Suc i) st1 w1 res1))"
        using ih s1 by (auto simp: loop_ok_def intro: extends_trans)
      show ?thesis
      proof (cases "batch_loop groupId numbers (Suc i) st1 w1 res1")
        case (Continue st2 w2 res2)
        then show ?thesis
          unfolding L using ih s1 e True d
          by (auto simp: loop_ok_def Suc_diff_Suc)
      next
        case (Return st2 w2 res2)
        then have j: "Suc i \<le> currentBatchIndex st2"
          using ih by (simp add: loop_ok_def)
        show ?thesis
          unfolding L using Return ih s1 e True
            take_drop_step [OF True, of "Suc (currentBatchIndex st2)" "map d_number (details res)"]
          by (simp add: loop_ok_def)
      next
        case (Throw st2 w2 res2 e2)
        then have j: "Suc i \<le> currentBatchIndex st2"
          using ih by (simp add: loop_ok_def)
        show ?thesis
          unfolding L using Throw ih s1 e True
            take_drop_step [OF True j, of "map d_number (details res)"]
            take_drop_step [OF True, of "Suc (currentBatchIndex st2)" "map d_number (details res)"]
          by (auto simp: loop_ok_def)
      qed
    next
      case (Return st1 w1 res1)
      have L: "batch_loop groupId numbers i st w res = Return st1 w1 res1"
        using True Return S_def by (subst batch_loop.simps) simp
      show ?thesis
        unfolding L using ok Return True d by (simp add: loop_ok_def step_ok_def)
    next
      case (Throw st1 w1 res1 e)
      have L: "batch_loop groupId numbers i st w res = Throw st1 w1 res1 e"
        using True Throw S_def by (subst batch_loop.simps) simp
      show ?thesis
        unfolding L using ok Throw True d by (auto simp: loop_ok_def step_ok_def)
    qed
  qed
qed

subsection \<open>The stored group identifier\<close>

lemma saveSessionStats_empty_batch:
  "currentBatch st = [] \<Longrightarrow> batch_writes (saveSessionStats st w) = batch_writes w"
  "currentBatch st = [] \<Longrightarrow> batches_file (saveSessionStats st w) = batches_file w"
  by (simp_all add: saveSessionStats_def Let_def)

lemma pre_checks_frame:
  "lastGroupId (fst (snd (pre_checks st w))) = lastGroupId st"
  "currentBatch (fst (snd (pre_checks st w))) = currentBatch st"
  "currentBatchIndex (fst (snd (pre_checks st w))) = currentBatchIndex st"
  by (simp_all add: pre_checks_def Let_def split_def split: sum.splits bool.splits)

lemma extends_pre_checks:
  "extends (lastGroupId st) w (snd (snd (pre_checks st w)))"
proof -
  define s where "s = st\<lparr>addedToday := 0, hourlyAdditionCounts := replicate 24 0,
                         lastDateReset := toDateString (now w)\<rparr>"
  have a: "extends (lastGroupId st) w (snd (snd (checkCircuitBreaker st w)))"
    by (intro extends_checkCircuitBreaker extends_refl refl)
  have b: "extends (lastGroupId st) w (snd (snd (checkCircuitBreaker s (saveSessionStats s w))))"
    by (intro extends_checkCircuitBreaker extends_save extends_refl) (simp_all add: s_def)
  show ?thesis
    using a b
    by (simp add: pre_checks_def Let_def split_def s_def extends_refl split: sum.splits bool.splits)
qed

lemma verify_group_frame:
  "lastGroupId (fst (snd (verify_group g st w))) = lastGroupId st"
  "currentBatch (fst (snd (verify_group g st w))) = currentBatch st"
  "currentBatchIndex (fst (snd (verify_group g st w))) = currentBatchIndex st"
  "batch_writes (snd (snd (verify_group g st w))) = batch_writes w"
  by (simp_all add: verify_group_def Let_def split: verify_outcome.splits)

lemma admit_frame:
  "lastGroupId (fst (snd (admit g st w))) = lastGroupId st"
  "currentBatch (fst (snd (admit g st w))) = currentBatch st"
  "currentBatchIndex (fst (snd (admit g st w))) = currentBatchIndex st"
  "extends (lastGroupId st) w (snd (snd (admit g st w)))"
proof -
  obtain m st1 w1 where p: "pre_checks st w = (m, st1, w1)"
    by (metis prod_cases3)
  have f: "lastGroupId st1 = lastGroupId st" "currentBatch st1 = currentBatch st"
    "currentBatchIndex st1 = currentBatchIndex st" "extends (lastGroupId st) w w1"
    using pre_checks_frame [of st w] extends_pre_checks [of st w] p by simp_all
  have e: "extends (lastGroupId st) w (snd (snd (verify_group g st1 w1)))"
    by (rule extends_same [OF verify_group_frame(4) f(4)])
  show "lastGroupId (fst (snd (admit g st w))) = lastGroupId st"
    "currentBatch (fst (snd (admit g st w))) = currentBatch st"
    "currentBatchIndex (fst (snd (admit g st w))) = currentBatchIndex st"
    "extends (lastGroupId st) w (snd (snd (admit g st w)))"
    using p f e by (simp_all add: admit_def verify_group_frame split: option.splits)
qed

lemma start_batch_frame:
  "lastGroupId (start_batch g numbers st) = lastGroupId st"
  "currentBatch (start_batch g numbers st) = numbers"
  by (simp_all add: start_batch_def Let_def)

lemma run_batch_frame:
  "(lastGroupId (fst (snd (run_batch g numbers msg st w))) = lastGroupId st
     \<or> lastGroupId (fst (snd (run_batch g numbers msg st w))) = None)
   \<and> extends (lastGroupId st) w (snd (snd (run_batch g numbers msg st w)))"
proof -
  define st0 where "st0 = start_batch g numbers st"
  define L where "L = batch_loop g numbers (currentBatchIndex st0) st0 w (initial_results numbers)"
  have ok: "loop_ok numbers (currentBatchIndex st0) st0 w (initial_results numbers) L"
    unfolding L_def by (rule batch_loop_ok)
  have g0: "lastGroupId st0 = lastGroupId st"
    by (simp add: st0_def start_batch_frame)
  have l: "lastGroupId (step_state L) = lastGroupId st"
    "extends (lastGroupId st) w (step_world L)"
    using ok g0 by (simp_all add: loop_ok_def)
  have fin: "extends (lastGroupId st) w (snd (finally_block s v))"
    if "lastGroupId s = lastGroupId st" "extends (lastGroupId st) w v" for s v
    using that by (simp add: finally_block_def Let_def extends_save)
  have fin_l: "lastGroupId (fst (finally_block s v)) = lastGroupId s" for s v
    by (simp add: finally_block_def Let_def)
  show ?thesis
  proof (cases L)
    case (Continue st1 w1 res)
    define w2 where "w2 = (if msg \<noteq> [] \<and> added res > 0
                        then w1\<lparr>outbox := outbox w1 @ [(g, msg)]\<rparr> else w1)"
    have e2: "extends (lastGroupId st) w w2"
      using l Continue by (auto simp: w2_def intro: extends_same)
    show ?thesis
    proof (cases "currentBatch st1 \<noteq> []
                   \<and> int (currentBatchIndex st1) \<ge> int (length (currentBatch st1)) - 1")
      case True
      define st2 where "st2 = st1\<lparr>currentBatch := [], currentBatchIndex := 0, lastGroupId := None\<rparr>"
      have "batch_writes (snd (finally_block st2 (clearBatchData w2))) = batch_writes w2"
        by (simp add: finally_block_def Let_def st2_def saveSessionStats_empty_batch clearBatchData_def)
      then have "extends (lastGroupId st) w (snd (finally_block st2 (clearBatchData w2)))"
        using e2 by (rule extends_same)
      then show ?thesis
        using True Continue
        by (simp add: run_batch_def Let_def split_def st0_def [symmetric] L_def [symmetric]
            w2_def st2_def fin_l)
    next
      case False
      then have "run_batch g numbers msg st w =
          (Finished res, fst (finally_block st1 w2), snd (finally_block st1 w2))"
        using Continue
        by (auto simp: run_batch_def Let_def split_def st0_def [symmetric] L_def [symmetric] w2_def)
      then show ?thesis
        using Continue l fin [of st1 w2] e2 by (simp add: fin_l)
    qed
  next
    case (Return st1 w1 res)
    then show ?thesis
      using l fin [of st1 w1]
      by (simp add: run_batch_def Let_def split_def st0_def [symmetric] L_def [symmetric] fin_l)
  next
    case (Throw st1 w1 res e)
    then show ?thesis
      using l fin [of st1 w1]
      by (simp add: run_batch_def Let_def split_def st0_def [symmetric] L_def [symmetric] fin_l)
  qed
qed


text \<open>
  C10. \<^verbatim>\<open>addMembersToGroup\<close> never stores the submitted group identifier: when it
  returns, \<^verbatim>\<open>lastGroupId\<close> is what it was before or \<^verbatim>\<open>null\<close> (the cleanup), and
  every batch record it wrote to the batch file carries the \<^verbatim>\<open>lastGroupId\<close> of before
  the call. So for a submission whose target is not the stored \<^verbatim>\<open>lastGroupId\<close>, once
  admitted, the resume branch is not taken and the cursor starts at 0. The stored
  identifier comes from \<^verbatim>\<open>loadBatchData\<close>: with a batch file whose batch is not
  empty it is the identifier of that file, and otherwise the state is left as it is.
\<close>

theorem C10_lastGroupId_never_set:
  "(lastGroupId (fst (snd (addMembersToGroup g numbers msg st w))) = lastGroupId st
      \<or> lastGroupId (fst (snd (addMembersToGroup g numbers msg st w))) = None)
   \<and> (\<exists>ws. batch_writes (snd (snd (addMembersToGroup g numbers msg st w))) = batch_writes w @ ws
          \<and> (\<forall>r\<in>set ws. b_lastGroupId r = lastGroupId st))
   \<and> (lastGroupId st \<noteq> Some g \<longrightarrow>
        (\<forall>st1 w1. admit g st w = (None, st1, w1) \<longrightarrow>
           start_batch g numbers st1 =
             st1\<lparr>isAddingMembers := True, userStatus := Adding,
                 currentBatch := numbers, currentBatchIndex := 0\<rparr>))
   \<and> (\<forall>r. batches_file w = Some r \<and> b_currentBatch r \<noteq> [] \<longrightarrow>
          lastGroupId (loadBatchData st w) = b_lastGroupId r)
   \<and> ((\<forall>r. batches_file w = Some r \<longrightarrow> b_currentBatch r = []) \<longrightarrow>
          loadBatchData st w = st)"
proof -
  obtain m st1 w1 where a: "admit g st w = (m, st1, w1)"
    by (metis prod_cases3)
  have f: "lastGroupId st1 = lastGroupId st" "extends (lastGroupId st) w w1"
    using admit_frame [where g=g and st=st and w=w] a by simp_all
  have r: "(lastGroupId (fst (snd (run_batch g numbers msg st1 w1))) = lastGroupId st
     \<or> lastGroupId (fst (snd (run_batch g numbers msg st1 w1))) = None)
   \<and> extends (lastGroupId st) w (snd (snd (run_batch g numbers msg st1 w1)))"
    using run_batch_frame [where g=g and numbers=numbers and msg=msg and st=st1 and w=w1] f
    by (auto intro: extends_trans)
  have 1: "(lastGroupId (fst (snd (addMembersToGroup g numbers msg st w))) = lastGroupId st
      \<or> lastGroupId (fst (snd (addMembersToGroup g numbers msg st w))) = None)
      \<and> extends (lastGroupId st) w (snd (snd (addMembersToGroup g numbers msg st w)))"
    using a f r by (cases m) (simp_all add: addMembersToGroup_def)
  have 2: "start_batch g numbers s =
             s\<lparr>isAddingMembers := True, userStatus := Adding,
                 currentBatch := numbers, currentBatchIndex := 0\<rparr>"
    if "lastGroupId st \<noteq> Some g" "admit g st w = (None, s, v)" for s v
    using that admit_frame(1) [where g=g and st=st and w=w] by (simp add: start_batch_def Let_def)
  have 3: "lastGroupId (loadBatchData st w) = b_lastGroupId r"
    if "batches_file w = Some r \<and> b_currentBatch r \<noteq> []" for r
    using that by (simp add: loadBatchData_def)
  have 4: "loadBatchData st w = st" if "\<forall>r. batches_file w = Some r \<longrightarrow> b_currentBatch r = []"
    using that by (simp add: loadBatchData_def split: option.splits)
  have a1: "lastGroupId (fst (snd (addMembersToGroup g numbers msg st w))) = lastGroupId st
      \<or> lastGroupId (fst (snd (addMembersToGroup g numbers msg st w))) = None"
    and b1: "\<exists>ws. batch_writes (snd (snd (addMembersToGroup g numbers msg st w))) = batch_writes w @ ws
          \<and> (\<forall>r\<in>set ws. b_lastGroupId r = lastGroupId st)"
    using 1 unfolding extends_def by simp_all
  show ?thesis
    by (intro conjI allI impI a1 b1) (erule (1) 2, erule 3, erule 4)
qed


theorem C10_lastGroupId_never_set_witness:
  "lastGroupId (fst (snd (addMembersToGroup ''120363413164388361@g.us'' four_numbers []
       (default_stats 0) (calm_world 36000000)))) = None
   \<and> list_all (\<lambda>r. b_lastGroupId r = None)
       (batch_writes (snd (snd (addMembersToGroup ''120363413164388361@g.us'' four_numbers []
          (default_stats 0) (calm_world 36000000)))))
   \<and> currentBatchIndex (start_batch ''120363413164388361@g.us'' four_numbers (default_stats 0)) = 0
   \<and> lastGroupId (loadBatchData (default_stats 0)
        ((calm_world 36000000)\<lparr>batches_file :=
            Some \<lparr>b_currentBatch = four_numbers, b_currentBatchIndex = 2,
                  b_lastGroupId = Some ''120363413164388361@g.us''\<rparr>\<rparr>))
       = Some ''120363413164388361@g.us''"
proof -
  have n: "lastGroupId (default_stats 0) = None" "batch_writes (calm_world 36000000) = []"
    by (simp_all add: default_stats_def calm_world_def)
  have f: "four_numbers \<noteq> []"
    by (simp add: four_numbers_def)
  show ?thesis
    using C10_lastGroupId_never_set [of "''120363413164388361@g.us''" four_numbers "[]"
        "default_stats 0" "calm_world 36000000"]
      C10_lastGroupId_never_set [of "''120363413164388361@g.us''" four_numbers "[]"
        "default_stats 0" "(calm_world 36000000)\<lparr>batches_file :=
            Some \<lparr>b_currentBatch = four_numbers, b_currentBatchIndex = 2,
                  b_lastGroupId = Some ''120363413164388361@g.us''\<rparr>\<rparr>"]
      admit_default n f
    by (auto simp: list_all_iff)
qed

subsection \<open>Resuming a stored batch\<close>

lemma finally_block_cleared:
  "currentBatch st = [] \<Longrightarrow> batches_file (snd (finally_block st w)) = batches_file w"
  "currentBatch (fst (finally_block st w)) = currentBatch st"
  "currentBatchIndex (fst (finally_block st w)) = currentBatchIndex st"
  "lastGroupId (fst (finally_block st w)) = lastGroupId st"
  by (simp_all add: finally_block_def Let_def saveSessionStats_empty_batch)

lemma run_batch_details:
  "\<exists>res k. fst (run_batch g numbers msg st w) = Finished res
     \<and> map d_number (details res) =
         take k (drop (currentBatchIndex (start_batch g numbers st)) numbers)"
proof -
  define st0 where "st0 = start_batch g numbers st"
  define L where "L = batch_loop g numbers (currentBatchIndex st0) st0 w (initial_results numbers)"
  have ok: "loop_ok numbers (currentBatchIndex st0) st0 w (initial_results numbers) L"
    unfolding L_def by (rule batch_loop_ok)
  have i: "details (initial_results numbers) = []"
    by (simp add: initial_results_def)
  show ?thesis
  proof (cases L)
    case (Continue st1 w1 res)
    then have "map d_number (details res) =
        take (length numbers) (drop (currentBatchIndex st0) numbers)"
      using ok i by (simp add: loop_ok_def)
    moreover have "fst (run_batch g numbers msg st w) = Finished res"
      using Continue
      by (simp add: run_batch_def Let_def split_def st0_def [symmetric] L_def [symmetric])
    ultimately show ?thesis
      unfolding st0_def by blast
  next
    case (Return st1 w1 res)
    then have "map d_number (details res) =
        take (Suc (currentBatchIndex st1) - currentBatchIndex st0) (drop (currentBatchIndex st0) numbers)"
      using ok i by (simp add: loop_ok_def)
    moreover have "fst (run_batch g numbers msg st w) = Finished res"
      using Return
      by (simp add: run_batch_def Let_def split_def st0_def [symmetric] L_def [symmetric])
    ultimately show ?thesis
      unfolding st0_def by blast
  next
    case (Throw st1 w1 res e)
    then have "\<exists>k. map d_number (details (res\<lparr>success := False, message := Some (UnexpectedError e)\<rparr>)) =
        take k (drop (currentBatchIndex st0) numbers)"
      using ok i by (auto simp: loop_ok_def)
    moreover have "fst (run_batch g numbers msg st w) =
        Finished (res\<lparr>success := False, message := Some (UnexpectedError e)\<rparr>)"
      using Throw
      by (simp add: run_batch_def Let_def split_def st0_def [symmetric] L_def [symmetric])
    ultimately show ?thesis
      unfolding st0_def by blast
  qed
qed

text \<open>
  C3. Let the batch file hold the items, a cursor \<open>c\<close> with \<open>0 < c < length items\<close>
  and the group identifier; let the state be the one \<^verbatim>\<open>loadBatchData\<close> makes of it,
  and let the same items be submitted for the same group and be admitted. Then the loop
  starts at \<open>c\<close>. Whatever way it ends, the details of the result are items from
  \<open>c\<close> on, in order (a prefix of them): no item before the cursor is attempted or
  counted. When the loop runs to the end, the details are exactly the items from
  \<open>c\<close> to the last, \<^verbatim>\<open>added + failed + skipped\<close> is their number, the batch file
  is deleted, and the batch, the cursor and the group identifier in memory are cleared.
\<close>

theorem C3_resume:
  assumes stored: "batches_file w0 = Some r" "b_currentBatch r = numbers"
      "b_currentBatchIndex r = c" "b_lastGroupId r = Some g"
    and c: "0 < c" "c < length numbers"
    and st: "st = loadBatchData st0 w0"
    and adm: "admit g st w = (None, st1, w1)"
  shows "currentBatchIndex (start_batch g numbers st1) = c
     \<and> (\<exists>res k. fst (addMembersToGroup g numbers msg st w) = Finished res
            \<and> map d_number (details res) = take k (drop c numbers))
     \<and> (\<forall>st2 w2 res.
           batch_loop g numbers c (start_batch g numbers st1) w1 (initial_results numbers)
             = Continue st2 w2 res \<longrightarrow>
           fst (addMembersToGroup g numbers msg st w) = Finished res
           \<and> map d_number (details res) = drop c numbers
           \<and> added res + failed res + skipped res = int (length numbers - c)
           \<and> currentBatch (fst (snd (addMembersToGroup g numbers msg st w))) = []
           \<and> currentBatchIndex (fst (snd (addMembersToGroup g numbers msg st w))) = 0
           \<and> lastGroupId (fst (snd (addMembersToGroup g numbers msg st w))) = None
           \<and> batches_file (snd (snd (addMembersToGroup g numbers msg st w))) = None)"
proof -
  have ne: "numbers \<noteq> []" using c by auto
  have s: "currentBatch st = numbers" "currentBatchIndex st = c" "lastGroupId st = Some g"
    using stored ne by (simp_all add: st loadBatchData_def)
  have s1: "currentBatch st1 = numbers" "currentBatchIndex st1 = c" "lastGroupId st1 = Some g"
    using admit_frame(1,2,3) [where g=g and st=st and w=w] adm s by simp_all
  define st0' where "st0' = start_batch g numbers st1"
  have s0: "currentBatchIndex st0' = c" "currentBatch st0' = numbers"
    using s1 ne by (simp_all add: st0'_def start_batch_def Let_def)
  have amg0: "addMembersToGroup g numbers msg st w = run_batch g numbers msg st1 w1"
    using adm by (simp add: addMembersToGroup_def)
  have part2: "\<exists>res k. fst (addMembersToGroup g numbers msg st w) = Finished res
            \<and> map d_number (details res) = take k (drop c numbers)"
    using run_batch_details [of g numbers msg st1 w1] s0 unfolding amg0 st0'_def by simp
  have part3: "fst (addMembersToGroup g numbers msg st w) = Finished res
           \<and> map d_number (details res) = drop c numbers
           \<and> added res + failed res + skipped res = int (length numbers - c)
           \<and> currentBatch (fst (snd (addMembersToGroup g numbers msg st w))) = []
           \<and> currentBatchIndex (fst (snd (addMembersToGroup g numbers msg st w))) = 0
           \<and> lastGroupId (fst (snd (addMembersToGroup g numbers msg st w))) = None
           \<and> batches_file (snd (snd (addMembersToGroup g numbers msg st w))) = None"
    if L: "batch_loop g numbers c st0' w1 (initial_results numbers) = Continue st2 w2 res"
    for st2 w2 res
  proof -
    have ok: "loop_ok numbers c st0' w1 (initial_results numbers) (Continue st2 w2 res)"
      using batch_loop_ok [of numbers c st0' w1 "initial_results numbers" g] L by simp
    have d: "map d_number (details res) = drop c numbers"
      "tally res = int (length numbers - c)"
      "currentBatchIndex st2 = length numbers - 1" "currentBatch st2 = numbers"
      using ok c s0 by (simp_all add: loop_ok_def initial_results_def tally_def)
    define w3 where "w3 = (if msg \<noteq> [] \<and> added res > 0
                          then w2\<lparr>outbox := outbox w2 @ [(g, msg)]\<rparr> else w2)"
    define st3 where "st3 = st2\<lparr>currentBatch := [], currentBatchIndex := 0, lastGroupId := None\<rparr>"
    have cond: "currentBatch st2 \<noteq> []
         \<and> int (currentBatchIndex st2) \<ge> int (length (currentBatch st2)) - 1"
      using d ne by simp
    have rb: "run_batch g numbers msg st1 w1 =
        (Finished res, fst (finally_block st3 (clearBatchData w3)),
           snd (finally_block st3 (clearBatchData w3)))"
      using L cond s0
      by (simp add: run_batch_def Let_def split_def st0'_def [symmetric] w3_def st3_def)
    have e: "currentBatch st3 = []" "currentBatchIndex st3 = 0" "lastGroupId st3 = None"
      by (simp_all add: st3_def)
    have b: "batches_file (clearBatchData w3) = None"
      by (simp add: clearBatchData_def)
    show ?thesis
      using d e b unfolding amg0 rb
      by (simp add: finally_block_cleared tally_def)
  qed
  show ?thesis
    using s0(1) part2 part3 unfolding st0'_def by blast
qed


lemma admit_restarted:
  "admit ''120363413164388361@g.us'' restarted (calm_world 36000000)
     = (None, restarted, (calm_world 36000000)\<lparr>now := 36000100\<rparr>)"
  by (simp add: admit_def pre_checks_def verify_group_def restarted_def stored_batch_def
      loadBatchData_def four_numbers_def default_stats_def calm_world_def
      toDateString_def checkCircuitBreaker_def checkHourlyLimit_def getHours_def
      newer_format_def is_digit_def)

theorem C3_resume_witness:
  "currentBatchIndex (start_batch ''120363413164388361@g.us'' four_numbers restarted) = 2
   \<and> (\<exists>res. fst (addMembersToGroup ''120363413164388361@g.us'' four_numbers [] restarted
                   (calm_world 36000000)) = Finished res
         \<and> map d_number (details res) = [Str ''919876543212'', Str ''919876543213'']
         \<and> added res + failed res + skipped res = 2)
   \<and> lastGroupId (fst (snd (addMembersToGroup ''120363413164388361@g.us'' four_numbers [] restarted
                   (calm_world 36000000)))) = None
   \<and> batches_file (snd (snd (addMembersToGroup ''120363413164388361@g.us'' four_numbers [] restarted
                   (calm_world 36000000)))) = None"
proof -
  let ?g = "''120363413164388361@g.us''"
  let ?L = "batch_loop ?g four_numbers 2 (start_batch ?g four_numbers restarted)
              ((calm_world 36000000)\<lparr>now := 36000100\<rparr>) (initial_results four_numbers)"
  have "continues ?L"
    by (simp add: batch_loop.simps restarted_def stored_batch_def loadBatchData_def
        four_numbers_def model_defs getSmartDelay_half)
  then obtain st2 w2 res where L: "?L = Continue st2 w2 res"
    by (cases ?L) simp_all
  have f: "length four_numbers = 4" "drop 2 four_numbers = [Str ''919876543212'', Str ''919876543213'']"
    by (simp_all add: four_numbers_def)
  have s: "batches_file ((calm_world 0)\<lparr>batches_file := Some stored_batch\<rparr>) = Some stored_batch"
    "b_currentBatch stored_batch = four_numbers" "b_currentBatchIndex stored_batch = 2"
    "b_lastGroupId stored_batch = Some ?g"
    by (simp_all add: stored_batch_def)
  have c: "(0::nat) < 2" "2 < length four_numbers"
    by (simp_all add: f)
  from C3_resume [OF s c restarted_def admit_restarted, of "[]"] L f
  show ?thesis
    by auto
qed

subsection \<open>The daily limit inside a batch\<close>

lemma getHours_lt: "getHours t < 24"
  by (simp add: getHours_def nat_less_iff)

lemma add_result_frame [simp]:
  "add_result (sleep k d w) = add_result w"
  "add_result (snd (getSmartDelay st w)) = add_result w"
  "add_result (snd (updateHourlyCount st w)) = add_result w"
  by (simp_all add: sleep_def getSmartDelay_def next_random_def updateHourlyCount_def
      Let_def split_def)

lemma after_item_quiet:
  assumes "\<not> circuitBreakerTripped st" "consecutiveFailures st < failureThreshold st"
  shows "after_item st w res = Continue st w res"
  using assms by (simp add: after_item_def checkCircuitBreaker_def)

lemma begin_item_add_result:
  "begin_item numbers i st w res = (st1, w2, res1) \<Longrightarrow> add_result w2 = add_result w"
  by (auto simp: begin_item_def Let_def)

lemma begin_item_results:
  "begin_item numbers i st w res = (st1, w2, res1) \<Longrightarrow>
     res1 = res\<lparr>batch_processed := i, batch_remaining := length numbers - i\<rparr>"
  by (auto simp: begin_item_def Let_def)

lemma quota_room_hour:
  assumes "quota_room (Suc k) st"
  shows "\<not> checkHourlyLimit (st\<lparr>currentBatchIndex := i\<rparr>) w"
proof -
  have "hourlyAdditionCounts st ! getHours (now w) + int (Suc k) \<le> hourlyLimit st"
    using assms getHours_lt [of "now w"] by (simp add: quota_room_def list_all_length)
  then show ?thesis
    by (simp add: checkHourlyLimit_def)
qed

lemma quota_room_added:
  assumes "quota_room (Suc k) st"
  shows "quota_room k ((fst (updateHourlyCount (st\<lparr>currentBatchIndex := i,
            addedToday := addedToday st + 1\<rparr>) w))\<lparr>consecutiveFailures := 0\<rparr>)"
proof -
  let ?cs = "hourlyAdditionCounts st"
  let ?h = "getHours (now w)"
  have len: "length ?cs = 24" and all: "\<forall>j<24. ?cs ! j + int (Suc k) \<le> hourlyLimit st"
    using assms by (simp_all add: quota_room_def list_all_length)
  have "list_all (\<lambda>c. c + int k \<le> hourlyLimit st) (?cs[?h := ?cs ! ?h + 1])"
    unfolding list_all_length
  proof (intro allI impI)
    fix j assume "j < length (?cs[?h := ?cs ! ?h + 1])"
    then have j: "j < 24" using len by simp
    show "?cs[?h := ?cs ! ?h + 1] ! j + int k \<le> hourlyLimit st"
      using all j len by (cases "j = ?h") (auto simp: nth_list_update)
  qed
  then show ?thesis
    using assms by (simp add: quota_room_def updateHourlyCount_def Let_def)
qed


lemma success_step:
  assumes q: "quota_room (Suc k) st"
    and i: "numbers ! i = Str s" "validatePhoneNumber s = Valid f"
    and a: "add_result w i = AddOk"
  shows "\<exists>st' w'. process_item g numbers i st w res =
       Continue st' w'
         (res\<lparr>batch_processed := i, batch_remaining := length numbers - i,
              added := added res + 1,
              details := details res @
                [\<lparr>d_number = numbers ! i, d_status = Added,
                  d_reason = ''Successfully saved contact and added to group''\<rparr>]\<rparr>)
     \<and> quota_room k st' \<and> add_result w' = add_result w"
proof -
  obtain st1 w2 res1 where b: "begin_item numbers i st w res = (st1, w2, res1)"
    by (metis prod_cases3)
  have st1: "st1 = st\<lparr>currentBatchIndex := i\<rparr>"
    and res1: "res1 = res\<lparr>batch_processed := i, batch_remaining := length numbers - i\<rparr>"
    and a2: "add_result w2 = add_result w"
    using begin_item_state [OF b] begin_item_results [OF b] begin_item_add_result [OF b]
    by simp_all
  define w3 where "w3 = w2\<lparr>now := now w2 + add_ms w2 i\<rparr>"
  have att: "saveContactThenAdd (numbers ! i) g i w2 = (AddOk, w3)"
    using i a a2 by (simp add: saveContactThenAdd_def w3_def)
  have daily: "\<not> dailyLimit st1 \<le> addedToday st1"
    using q by (simp add: quota_room_def st1)
  have hourly: "\<not> checkHourlyLimit st1 w2"
    unfolding st1 by (rule quota_room_hour [OF q])
  have p: "process_item g numbers i st w res = on_success numbers i st1 w3 res1"
    using b daily hourly att by (simp add: process_item_def)
  define sa where "sa = st1\<lparr>addedToday := addedToday st1 + 1\<rparr>"
  define st3 where "st3 = (fst (updateHourlyCount sa w3))\<lparr>consecutiveFailures := 0\<rparr>"
  define w4 where "w4 = saveSessionStats st3 (snd (updateHourlyCount sa w3))"
  define w5 where "w5 = (if int i < int (length numbers) - 1
               then sleep SmartDelay (map_option real_of_int (fst (getSmartDelay st3 w4)))
                      (snd (getSmartDelay st3 w4))
               else w4)"
  have q3: "quota_room k st3"
    using quota_room_added [OF q, of i w3] by (simp add: st3_def sa_def st1)
  have quiet: "\<not> circuitBreakerTripped st3" "consecutiveFailures st3 < failureThreshold st3"
    using q3 by (simp_all add: quota_room_def) (simp add: st3_def)
  have a5: "add_result w5 = add_result w"
    by (simp add: w5_def w4_def w3_def a2)
  have "process_item g numbers i st w res = Continue st3 w5
          (res1\<lparr>added := added res1 + 1,
           details := details res1 @
             [\<lparr>d_number = numbers ! i, d_status = Added,
               d_reason = ''Successfully saved contact and added to group''\<rparr>]\<rparr>)"
    unfolding p on_success_eq [OF sa_def st3_def w4_def w5_def]
    by (rule after_item_quiet [OF quiet])
  then show ?thesis
    using q3 a5 by (simp add: res1)
qed

lemma skip_step:
  assumes q: "quota_room 0 st"
  shows "\<exists>st' w'. process_item g numbers i st w res =
       Continue st' w'
         (res\<lparr>batch_processed := i, batch_remaining := length numbers - i,
              details := details res @
                [\<lparr>d_number = numbers ! i, d_status = Skipped, d_reason = ''Daily limit reached''\<rparr>],
              skipped := skipped res + 1\<rparr>)
     \<and> quota_room 0 st' \<and> add_result w' = add_result w"
proof -
  obtain st1 w2 res1 where b: "begin_item numbers i st w res = (st1, w2, res1)"
    by (metis prod_cases3)
  have st1: "st1 = st\<lparr>currentBatchIndex := i\<rparr>"
    and res1: "res1 = res\<lparr>batch_processed := i, batch_remaining := length numbers - i\<rparr>"
    and a2: "add_result w2 = add_result w"
    using begin_item_state [OF b] begin_item_results [OF b] begin_item_add_result [OF b]
    by simp_all
  have daily: "dailyLimit st1 \<le> addedToday st1"
    using q by (simp add: quota_room_def st1)
  have q1: "quota_room 0 st1"
    using q by (simp add: quota_room_def st1)
  show ?thesis
    using b daily q1 a2 by (simp add: process_item_def res1)
qed


lemma valid_itemD: "valid_item x \<Longrightarrow> \<exists>s f. x = Str s \<and> validatePhoneNumber s = Valid f"
  by (auto simp: valid_item_def split: item.splits validation.splits)

lemma loop_all_succeed:
  assumes "quota_room k st" "list_all valid_item numbers" "\<forall>j. add_result w j = AddOk"
  shows "\<exists>st' w' res'. batch_loop g numbers i st w res = Continue st' w' res'
     \<and> added res' = added res + int (min k (length numbers - i))
     \<and> failed res' = failed res
     \<and> skipped res' = skipped res + int (length numbers - i - min k (length numbers - i))
     \<and> success res' = success res \<and> message res' = message res
     \<and> details res' = details res @ map added_detail (take k (drop i numbers))
                                   @ map skipped_daily (drop (i + k) numbers)"
  using assms
proof (induction g numbers i st w res arbitrary: k rule: batch_loop.induct)
  case (1 g numbers i st w res)
  show ?case
  proof (cases "i < length numbers")
    case False
    then show ?thesis
      by (subst batch_loop.simps) simp
  next
    case True
    have d: "drop i numbers = numbers ! i # drop (Suc i) numbers"
      using True by (simp add: Cons_nth_drop_Suc)
    show ?thesis
    proof (cases k)
      case 0
      obtain st1 w1 where
        p: "process_item g numbers i st w res = Continue st1 w1
               (res\<lparr>batch_processed := i, batch_remaining := length numbers - i,
                    details := details res @ [skipped_daily (numbers ! i)],
                    skipped := skipped res + 1\<rparr>)"
        and q1: "quota_room 0 st1" and a1: "add_result w1 = add_result w"
        using skip_step [of st g numbers i w res] "1.prems"(1) 0
        by (auto simp: skipped_daily_def)
      let ?r = "res\<lparr>batch_processed := i, batch_remaining := length numbers - i,
                    details := details res @ [skipped_daily (numbers ! i)],
                    skipped := skipped res + 1\<rparr>"
      have L: "batch_loop g numbers i st w res = batch_loop g numbers (Suc i) st1 w1 ?r"
        using True p by (subst batch_loop.simps) simp
      have "\<forall>j. add_result w1 j = AddOk" using "1.prems"(3) a1 by simp
      from "1.IH" [OF True p q1 "1.prems"(2) this]
      show ?thesis
        unfolding L using 0 True d by (auto simp: Suc_diff_Suc)
    next
      case (Suc k')
      have "valid_item (numbers ! i)"
        using "1.prems"(2) True by (simp add: list_all_length)
      then obtain s f where v: "numbers ! i = Str s" "validatePhoneNumber s = Valid f"
        using valid_itemD by blast
      obtain st1 w1 where
        p: "process_item g numbers i st w res = Continue st1 w1
               (res\<lparr>batch_processed := i, batch_remaining := length numbers - i,
                    added := added res + 1,
                    details := details res @ [added_detail (numbers ! i)]\<rparr>)"
        and q1: "quota_room k' st1" and a1: "add_result w1 = add_result w"
        using success_step [of k' st numbers i s f w g res] "1.prems"(1,3) Suc v
        by (auto simp: added_detail_def)
      let ?r = "res\<lparr>batch_processed := i, batch_remaining := length numbers - i,
                    added := added res + 1,
                    details := details res @ [added_detail (numbers ! i)]\<rparr>"
      have L: "batch_loop g numbers i st w res = batch_loop g numbers (Suc i) st1 w1 ?r"
        using True p by (subst batch_loop.simps) simp
      have "\<forall>j. add_result w1 j = AddOk" using "1.prems"(3) a1 by simp
      from "1.IH" [OF True p q1 "1.prems"(2) this]
      show ?thesis
        unfolding L using Suc True d by (auto simp: Suc_diff_Suc min_def)
    qed
  qed
qed


lemma checkCircuitBreaker_False:
  "checkCircuitBreaker st w = (Inr False, st', w') \<Longrightarrow> \<not> circuitBreakerTripped st'"
  by (auto simp: checkCircuitBreaker_def resetCircuitBreaker_def Let_def split: if_splits)

lemma pre_checks_not_tripped:
  assumes "pre_checks st w = (None, st1, w1)"
  shows "\<not> circuitBreakerTripped st1"
  using assms
  by (auto simp: pre_checks_def Let_def split: if_splits prod.splits sum.splits bool.splits
      dest: checkCircuitBreaker_False)

lemma verify_group_tripped:
  "circuitBreakerTripped (fst (snd (verify_group g st w))) = circuitBreakerTripped st"
  by (simp add: verify_group_def Let_def split: verify_outcome.splits)

lemma admit_not_tripped:
  assumes "admit g st w = (None, st1, w1)"
  shows "\<not> circuitBreakerTripped st1"
proof -
  obtain m s v where p: "pre_checks st w = (m, s, v)"
    by (metis prod_cases3)
  then have m: "m = None" and st1: "st1 = fst (snd (verify_group g s v))"
    using assms by (auto simp: admit_def split: option.splits)
  show ?thesis
    using pre_checks_not_tripped [of st w s v] p m
    by (simp add: st1 verify_group_tripped)
qed

text \<open>
  C9. A batch of 7 items is submitted for a group other than the stored one and is
  admitted, with \<^verbatim>\<open>dailyLimit - addedToday = 5\<close> at admission. Every item is a valid
  number and every add succeeds; the hourly limit leaves room for 5 additions in each
  hour, and the failure threshold is positive. Then the result is the complete one:
  5 added, 0 failed, 2 skipped, the details being the first five items as added followed
  by the last two as skipped for the daily limit; the skipped entries are the 6th and
  the 7th item, in this order. The loop goes on after the limit is reached and marks
  each remaining item.
\<close>

theorem C9_daily_limit_skip:
  assumes adm: "admit g st w = (None, st1, w1)"
    and fresh: "lastGroupId st \<noteq> Some g"
    and n: "length numbers = 7"
    and room: "dailyLimit st1 - addedToday st1 = 5"
    and hourly: "length (hourlyAdditionCounts st1) = 24"
      "list_all (\<lambda>c. c + 5 \<le> hourlyLimit st1) (hourlyAdditionCounts st1)"
    and thr: "0 < failureThreshold st1"
    and valid: "list_all valid_item numbers"
    and ok: "\<forall>j. add_result w1 j = AddOk"
  shows "\<exists>res. fst (addMembersToGroup g numbers msg st w) = Finished res
     \<and> success res \<and> message res = None
     \<and> added res = 5 \<and> failed res = 0 \<and> skipped res = 2
     \<and> details res = map added_detail (take 5 numbers) @ map skipped_daily (drop 5 numbers)
     \<and> map d_number (filter (\<lambda>d. d_status d = Skipped) (details res)) = [numbers ! 5, numbers ! 6]"
proof -
  define st0 where "st0 = start_batch g numbers st1"
  have g1: "lastGroupId st1 \<noteq> Some g"
    using admit_frame(1) [where g=g and st=st and w=w] adm fresh by simp
  have st0: "st0 = st1\<lparr>isAddingMembers := True, userStatus := Adding,
                       currentBatch := numbers, currentBatchIndex := 0\<rparr>"
    using g1 by (simp add: st0_def start_batch_def Let_def)
  have q: "quota_room 5 st0"
    using admit_not_tripped [OF adm] room hourly thr by (simp add: quota_room_def st0)
  obtain st2 w2 res where
    L: "batch_loop g numbers 0 st0 w1 (initial_results numbers) = Continue st2 w2 res"
    and r: "added res = 5" "failed res = 0" "skipped res = 2" "success res" "message res = None"
      "details res = map added_detail (take 5 numbers) @ map skipped_daily (drop 5 numbers)"
    using loop_all_succeed [OF q valid ok, of g 0 "initial_results numbers"] n
    by (auto simp: initial_results_def)
  have "fst (run_batch g numbers msg st1 w1) = Finished res"
    using L st0
    by (simp add: run_batch_def Let_def split_def st0_def [symmetric])
  then have a: "fst (addMembersToGroup g numbers msg st w) = Finished res"
    using adm by (simp add: addMembersToGroup_def)
  have "drop 5 numbers = numbers ! 5 # drop 6 numbers"
    "drop 6 numbers = numbers ! 6 # drop 7 numbers" "drop 7 numbers = []"
    using n Cons_nth_drop_Suc [of 5 numbers] Cons_nth_drop_Suc [of 6 numbers] by simp_all
  then have "drop 5 numbers = [numbers ! 5, numbers ! 6]"
    by simp
  then have "map d_number (filter (\<lambda>d. d_status d = Skipped) (details res)) = [numbers ! 5, numbers ! 6]"
    by (simp add: r(6) filter_map o_def added_detail_def skipped_daily_def)
  then show ?thesis
    using a r by simp
qed


lemma admit_limit_five:
  "admit ''120363413164388361@g.us'' ((default_stats 0)\<lparr>dailyLimit := 5\<rparr>) (calm_world 36000000)
     = (None, (default_stats 0)\<lparr>dailyLimit := 5\<rparr>, (calm_world 36000000)\<lparr>now := 36000100\<rparr>)"
  by (simp add: admit_def pre_checks_def verify_group_def default_stats_def calm_world_def
      toDateString_def checkCircuitBreaker_def checkHourlyLimit_def getHours_def
      newer_format_def is_digit_def)

theorem C9_daily_limit_skip_witness:
  "\<exists>res. fst (addMembersToGroup ''120363413164388361@g.us'' seven_numbers []
               ((default_stats 0)\<lparr>dailyLimit := 5\<rparr>) (calm_world 36000000)) = Finished res
     \<and> added res = 5 \<and> failed res = 0 \<and> skipped res = 2
     \<and> map d_number (filter (\<lambda>d. d_status d = Skipped) (details res))
         = [Str ''919876543215'', Str ''919876543216'']"
proof -
  have v: "list_all valid_item seven_numbers"
    by (simp add: seven_numbers_def valid_item_def validatePhoneNumber_def is_digit_def)
  have h: "list_all (\<lambda>c. c + 5 \<le> hourlyLimit ((default_stats 0)\<lparr>dailyLimit := 5\<rparr>))
             (hourlyAdditionCounts ((default_stats 0)\<lparr>dailyLimit := 5\<rparr>))"
    by (simp add: default_stats_def list_all_iff)
  have n: "length seven_numbers = 7" "seven_numbers ! 5 = Str ''919876543215''"
    "seven_numbers ! 6 = Str ''919876543216''"
    by (simp_all add: seven_numbers_def)
  from C9_daily_limit_skip [OF admit_limit_five _ n(1) _ _ h _ v, of "[]"] n(2,3)
  show ?thesis
    by (auto simp: default_stats_def calm_world_def)
qed

subsection \<open>The quota bounds at a recorded addition\<close>

text \<open>
  What a recorded addition does to the counters. The item is attempted only when
  \<^verbatim>\<open>addedToday < dailyLimit\<close> and the counter of the hour read at the check is below
  \<^verbatim>\<open>hourlyLimit\<close>. \<^verbatim>\<open>addedToday\<close> goes up by one and stays within the daily limit.
  The counter that goes up is the one of the hour read after the add has returned; when
  that is the hour of the check, every counter stays within the hourly limit.
\<close>

lemma after_item_quota_frame:
  "addedToday (step_state (after_item st w res)) = addedToday st"
  "dailyLimit (step_state (after_item st w res)) = dailyLimit st"
  "hourlyLimit (step_state (after_item st w res)) = hourlyLimit st"
  "hourlyAdditionCounts (step_state (after_item st w res)) = hourlyAdditionCounts st"
  by (simp_all add: after_item_def split_def split: sum.splits bool.splits)

lemma recorded_addition_bounds:
  assumes b: "begin_item numbers i st w res = (st1, w2, res1)"
    and daily: "\<not> dailyLimit st1 \<le> addedToday st1"
    and hourly: "\<not> checkHourlyLimit st1 w2"
    and att: "saveContactThenAdd (numbers ! i) g i w2 = (AddOk, w3)"
    and len: "length (hourlyAdditionCounts st) = 24"
    and bound: "list_all (\<lambda>c. c \<le> hourlyLimit st) (hourlyAdditionCounts st)"
  shows "addedToday (step_state (process_item g numbers i st w res))
           = addedToday st + 1
     \<and> addedToday (step_state (process_item g numbers i st w res))
           \<le> dailyLimit (step_state (process_item g numbers i st w res))
     \<and> hourlyAdditionCounts (step_state (process_item g numbers i st w res))
           = (hourlyAdditionCounts st)[getHours (now w3) :=
                hourlyAdditionCounts st ! getHours (now w3) + 1]
     \<and> (getHours (now w3) = getHours (now w2) \<longrightarrow>
          list_all (\<lambda>c. c \<le> hourlyLimit (step_state (process_item g numbers i st w res)))
            (hourlyAdditionCounts (step_state (process_item g numbers i st w res))))"
proof -
  have st1: "st1 = st\<lparr>currentBatchIndex := i\<rparr>"
    using begin_item_state [OF b] by simp
  have p: "process_item g numbers i st w res = on_success numbers i st1 w3 res1"
    using b daily hourly att by (simp add: process_item_def)
  define sa where "sa = st1\<lparr>addedToday := addedToday st1 + 1\<rparr>"
  define st3 where "st3 = (fst (updateHourlyCount sa w3))\<lparr>consecutiveFailures := 0\<rparr>"
  define w4 where "w4 = saveSessionStats st3 (snd (updateHourlyCount sa w3))"
  define w5 where "w5 = (if int i < int (length numbers) - 1
               then sleep SmartDelay (map_option real_of_int (fst (getSmartDelay st3 w4)))
                      (snd (getSmartDelay st3 w4))
               else w4)"
  let ?S = "process_item g numbers i st w res"
  let ?cs = "hourlyAdditionCounts st"
  let ?h = "getHours (now w3)"
  have f: "addedToday (step_state ?S) = addedToday st + 1"
    "dailyLimit (step_state ?S) = dailyLimit st"
    "hourlyLimit (step_state ?S) = hourlyLimit st"
    "hourlyAdditionCounts (step_state ?S) = ?cs[?h := ?cs ! ?h + 1]"
    unfolding p on_success_eq [OF sa_def st3_def w4_def w5_def] after_item_quota_frame
    by (simp_all add: st3_def sa_def st1 updateHourlyCount_def Let_def)
  have d: "addedToday st + 1 \<le> dailyLimit st"
    using daily by (simp add: st1)
  have "list_all (\<lambda>c. c \<le> hourlyLimit st) (?cs[?h := ?cs ! ?h + 1])"
    if same: "getHours (now w3) = getHours (now w2)"
    unfolding list_all_length
  proof (intro allI impI)
    fix j assume "j < length (?cs[?h := ?cs ! ?h + 1])"
    then have j: "j < 24" using len by simp
    have "?cs ! ?h < hourlyLimit st"
      using hourly same len getHours_lt [of "now w2"]
      by (simp add: checkHourlyLimit_def st1)
    then show "?cs[?h := ?cs ! ?h + 1] ! j \<le> hourlyLimit st"
      using bound j len by (cases "j = ?h") (auto simp: nth_list_update list_all_length)
  qed
  then show ?thesis
    using f d by simp
qed

lemma first_call_state:
  "fst (snd after_first_call) =
     one_per_hour\<lparr>addedToday := 1, hourlyAdditionCounts := (replicate 24 0)[0 := 1]\<rparr>"
  by (simp add: after_first_call_def one_per_hour_def batch_loop.simps model_defs)

text \<open>
  C1 asks that after every recorded addition \<^verbatim>\<open>addedToday <= dailyLimit\<close> and every
  hourly counter is at most \<^verbatim>\<open>hourlyLimit\<close>. The hourly part fails when the add
  crosses an hour boundary. With \<^verbatim>\<open>hourlyLimit\<close> 1, the first submission adds one
  number at 00:30, and the bounds hold in the state it leaves (the counter of hour 0
  is 1). The second submission, the same day at 23:59:59, passes the check for hour 23;
  its add returns after midnight and is recorded in the counter of hour 0, which is
  then 2.
\<close>

theorem C1_hour_rollover_exceeds_limit:
  "addedToday (fst (snd after_first_call)) \<le> dailyLimit (fst (snd after_first_call))
   \<and> list_all (\<lambda>c. c \<le> hourlyLimit (fst (snd after_first_call)))
        (hourlyAdditionCounts (fst (snd after_first_call)))
   \<and> getHours 86399000 = 23
   \<and> added (case fst second_call of Finished res \<Rightarrow> res) = 1
   \<and> hourlyLimit (fst (snd second_call)) = 1
   \<and> hourlyAdditionCounts (fst (snd second_call)) ! 0 = 2
   \<and> addedToday (fst (snd second_call)) \<le> dailyLimit (fst (snd second_call))"
proof -
  have "list_all (\<lambda>c. c \<le> (1::int)) ((replicate 24 0)[0 := 1])"
    by (simp add: list_all_length nth_list_update)
  then have before: "addedToday (fst (snd after_first_call)) \<le> dailyLimit (fst (snd after_first_call))
     \<and> list_all (\<lambda>c. c \<le> hourlyLimit (fst (snd after_first_call)))
        (hourlyAdditionCounts (fst (snd after_first_call)))"
    unfolding first_call_state by (simp add: one_per_hour_def default_stats_def)
  have after: "getHours 86399000 = 23
     \<and> added (case fst second_call of Finished res \<Rightarrow> res) = 1
     \<and> hourlyLimit (fst (snd second_call)) = 1
     \<and> hourlyAdditionCounts (fst (snd second_call)) ! 0 = 2
     \<and> addedToday (fst (snd second_call)) \<le> dailyLimit (fst (snd second_call))"
    unfolding second_call_def first_call_state
    by (simp add: one_per_hour_def batch_loop.simps model_defs)
  show ?thesis
    using before after by blast
qed

end
